theory Spec2Isabelle
  imports Complex_Main
begin

section \<open>JavaScript numbers\<close>

text \<open>
  A JavaScript number is modelled as an exact real, the two infinities or NaN; the zero of
  \<open>Num 0\<close> stands for both signed zeros. Only the operators that \<open>app.js\<close> applies are
  defined: unary minus, \<open>+\<close>, \<open>/\<close>, \<open><\<close>, \<open><=\<close> and \<open>isNaN\<close>. Unary minus and the two
  comparisons are exact on doubles, and so is the one sum the program takes, \<open>1 + 1\<close>.
  The quotient \<open>w / h\<close> is the exact one, where JavaScript rounds it to a double; no branch
  of the program reads it. The vector length, whose rounding does decide a branch, is not
  computed here: it is a parameter (see \<open>externals\<close>).
\<close>

datatype jsnum = Num real | PosInf | NegInf | NaN

definition isNaN :: "jsnum \<Rightarrow> bool" where
  "isNaN v = (v = NaN)"

fun js_neg :: "jsnum \<Rightarrow> jsnum" where
  "js_neg (Num r) = Num (- r)"
| "js_neg PosInf = NegInf"
| "js_neg NegInf = PosInf"
| "js_neg NaN = NaN"

fun js_add :: "jsnum \<Rightarrow> jsnum \<Rightarrow> jsnum" where
  "js_add NaN _ = NaN"
| "js_add _ NaN = NaN"
| "js_add (Num a) (Num b) = Num (a + b)"
| "js_add PosInf NegInf = NaN"
| "js_add NegInf PosInf = NaN"
| "js_add PosInf _ = PosInf"
| "js_add NegInf _ = NegInf"
| "js_add (Num a) PosInf = PosInf"
| "js_add (Num a) NegInf = NegInf"

fun js_div :: "jsnum \<Rightarrow> jsnum \<Rightarrow> jsnum" where
  "js_div NaN _ = NaN"
| "js_div _ NaN = NaN"
| "js_div (Num a) (Num b) =
     (if b \<noteq> 0 then Num (a / b)
      else if a = 0 then NaN
      else if 0 < a then PosInf else NegInf)"
| "js_div (Num a) _ = Num 0"
| "js_div PosInf (Num b) = (if 0 \<le> b then PosInf else NegInf)"
| "js_div NegInf (Num b) = (if 0 \<le> b then NegInf else PosInf)"
| "js_div _ _ = NaN"

fun js_lt :: "jsnum \<Rightarrow> jsnum \<Rightarrow> bool" where
  "js_lt NaN _ = False"
| "js_lt _ NaN = False"
| "js_lt (Num a) (Num b) = (a < b)"
| "js_lt _ NegInf = False"
| "js_lt PosInf _ = False"
| "js_lt NegInf _ = True"
| "js_lt (Num a) PosInf = True"

fun js_le :: "jsnum \<Rightarrow> jsnum \<Rightarrow> bool" where
  "js_le NaN _ = False"
| "js_le _ NaN = False"
| "js_le (Num a) (Num b) = (a \<le> b)"
| "js_le NegInf _ = True"
| "js_le _ PosInf = True"
| "js_le PosInf _ = False"
| "js_le (Num a) NegInf = False"

section \<open>The host's \<open>parseFloat\<close>\<close>

text \<open>
  \<open>parseFloat\<close> as ECMAScript defines it, on strings of ASCII characters: skip leading white
  space, take the longest prefix that is a \<open>StrDecimalLiteral\<close> (an optional sign, then
  \<open>Infinity\<close>, or digits with an optional fraction and exponent, or a point with digits and
  an optional exponent), and return its value; NaN when no prefix is one. What follows the
  prefix is ignored. The value is the exact decimal value, not rounded to a double.
\<close>

definition StrWhiteSpaceChar :: "char \<Rightarrow> bool" where
  "StrWhiteSpaceChar c \<longleftrightarrow> (of_char c :: nat) \<in> {9, 10, 11, 12, 13, 32}"

definition is_digit :: "char \<Rightarrow> bool" where
  "is_digit c \<longleftrightarrow> c \<in> set ''0123456789''"

definition digit_value :: "char \<Rightarrow> nat" where
  "digit_value c = of_char c - 48"

definition digits_value :: "string \<Rightarrow> nat" where
  "digits_value ds = foldl (\<lambda>n c. 10 * n + digit_value c) 0 ds"

definition scale10 :: "real \<Rightarrow> int \<Rightarrow> real" where
  "scale10 m e = (if 0 \<le> e then m * 10 ^ nat e else m / 10 ^ nat (- e))"

text \<open>\<open>ExponentPart\<close>: \<open>e\<close> or \<open>E\<close>, an optional sign and at least one digit. The result is
  the exponent and the rest of the string.\<close>

definition ExponentPart :: "string \<Rightarrow> (int \<times> string) option" where
  "ExponentPart s =
     (case s of
        [] \<Rightarrow> None
      | c # r \<Rightarrow>
          if c = CHR ''e'' \<or> c = CHR ''E''
          then (let (sign, ds) =
                      (case r of
                         [] \<Rightarrow> (1, r)
                       | d # r' \<Rightarrow> if d = CHR ''+'' then (1, r')
                                  else if d = CHR ''-'' then (- 1, r') else (1, r))
                in if takeWhile is_digit ds = [] then None
                   else Some (sign * int (digits_value (takeWhile is_digit ds)),
                              dropWhile is_digit ds))
          else None)"

text \<open>The value of the longest prefix that is a \<open>StrUnsignedDecimalLiteral\<close>, and the rest of
  the string after it.\<close>

definition StrUnsignedDecimalLiteral :: "string \<Rightarrow> jsnum \<times> string" where
  "StrUnsignedDecimalLiteral s =
     (if take 8 s = ''Infinity'' then (PosInf, drop 8 s)
      else (let ip = takeWhile is_digit s;
                r1 = dropWhile is_digit s;
                (fp, r2) =
                  (case r1 of
                     [] \<Rightarrow> ([], r1)
                   | c # r \<Rightarrow> if c = CHR ''.'' then (takeWhile is_digit r, dropWhile is_digit r)
                             else ([], r1))
            in if ip = [] \<and> fp = [] then (NaN, s)
               else (let m = real (digits_value ip) + real (digits_value fp) / 10 ^ length fp
                     in case ExponentPart r2 of
                          Some (e, r3) \<Rightarrow> (Num (scale10 m e), r3)
                        | None \<Rightarrow> (Num m, r2))))"

definition StrDecimalLiteral :: "string \<Rightarrow> jsnum \<times> string" where
  "StrDecimalLiteral s =
     (case s of
        [] \<Rightarrow> (NaN, s)
      | c # r \<Rightarrow>
          if c = CHR ''+'' then StrUnsignedDecimalLiteral r
          else if c = CHR ''-''
          then (case StrUnsignedDecimalLiteral r of (n, rest) \<Rightarrow> (js_neg n, rest))
          else StrUnsignedDecimalLiteral s)"

definition js_parseFloat :: "string \<Rightarrow> jsnum" where
  "js_parseFloat v = fst (StrDecimalLiteral (dropWhile StrWhiteSpaceChar v))"

text \<open>A numeric string: the whole of it, white space at both ends apart, is a decimal
  literal.\<close>

definition is_numeric_string :: "string \<Rightarrow> bool" where
  "is_numeric_string v \<longleftrightarrow>
     (case StrDecimalLiteral (dropWhile StrWhiteSpaceChar v) of
        (n, rest) \<Rightarrow> n \<noteq> NaN \<and> list_all StrWhiteSpaceChar rest)"

text \<open>A string that begins with a number, told from its first characters alone: after the
  white space and an optional sign come \<open>Infinity\<close>, a digit, or a point and a digit.\<close>

definition starts_unsigned :: "string \<Rightarrow> bool" where
  "starts_unsigned s \<longleftrightarrow>
     take 8 s = ''Infinity'' \<or>
     (case s of
        [] \<Rightarrow> False
      | c # r \<Rightarrow> is_digit c \<or> (c = CHR ''.'' \<and> (case r of [] \<Rightarrow> False | d # _ \<Rightarrow> is_digit d)))"

definition has_numeric_prefix :: "string \<Rightarrow> bool" where
  "has_numeric_prefix v \<longleftrightarrow>
     (case dropWhile StrWhiteSpaceChar v of
        [] \<Rightarrow> False
      | c # r \<Rightarrow> if c = CHR ''+'' \<or> c = CHR ''-'' then starts_unsigned r
                else starts_unsigned (c # r))"

section \<open>Vectors and quaternions of the two libraries\<close>

datatype vec3 = Vec3 (vx: jsnum) (vy: jsnum) (vz: jsnum)

datatype quat = Quat (qx: jsnum) (qy: jsnum) (qz: jsnum) (qw: jsnum)

text \<open>
  The exact Euclidean norm. The physics library's \<open>Vec3.length()\<close> computes
  \<open>Math.sqrt(x*x + y*y + z*z)\<close> in doubles, which is this norm only up to rounding and
  overflow, so the scene below does not use this function: it takes the library's
  \<open>length\<close> as a parameter. The exact norm serves the sample host of the concrete runs,
  which calls it on the zero vector only, where the two agree.
\<close>

fun exact_length :: "vec3 \<Rightarrow> jsnum" where
  "exact_length (Vec3 (Num a) (Num b) (Num c)) = Num (sqrt (a * a + b * b + c * c))"
| "exact_length (Vec3 a b c) = (if a = NaN \<or> b = NaN \<or> c = NaN then NaN else PosInf)"

text \<open>
  \<open>Quaternion.setFromEuler(x, 0, 0)\<close> (and assigning \<open>rotation.x\<close> of a mesh): a
  rotation about the x axis only.
\<close>

definition setFromEuler_x :: "real \<Rightarrow> quat" where
  "setFromEuler_x a = Quat (Num (sin (a / 2))) (Num 0) (Num 0) (Num (cos (a / 2)))"

section \<open>Objects of the heap\<close>

text \<open>
  Meshes and bodies are objects shared between the ball list, the visual scene and the
  physics world, so they live in two stores indexed by handles; \<open>new\<close> takes the next
  unused handle.
\<close>

type_synonym handle = nat

datatype geometry = NoGeometry | PlaneGeometry jsnum jsnum | SphereGeometry jsnum nat nat

record object3d =
  obj_position :: vec3
  obj_quaternion :: quat
  obj_geometry :: geometry
  castShadow :: bool
  receiveShadow :: bool

datatype material = Material string

datatype shape = Plane | Sphere jsnum

record body_obj =
  body_position :: vec3
  body_quaternion :: quat
  body_velocity :: vec3
  mass :: jsnum
  body_shape :: shape
  body_material :: material
  linearDamping :: jsnum

record contact_material =
  cm_first :: material
  cm_second :: material
  friction :: jsnum
  restitution :: jsnum

record world =
  gravity :: vec3
  bodies :: "handle list"
  contactmaterials :: "contact_material list"
  solver_iterations :: nat

record camera =
  fov :: jsnum
  aspect :: jsnum
  near :: jsnum
  far :: jsnum
  camera_position :: vec3
  projection :: "jsnum \<times> jsnum \<times> jsnum \<times> jsnum"

record ball =
  mesh :: handle
  body :: handle
  done_flag :: bool

record container =
  clientWidth :: nat
  clientHeight :: nat
  has_gravityInput :: bool

text \<open>What one call of \<open>renderer.render\<close> draws: the scene's children with their
  transforms, seen with the camera's projection.\<close>

type_synonym frame = "(handle \<times> vec3 \<times> quat) list \<times> (jsnum \<times> jsnum \<times> jsnum \<times> jsnum)"

record gravity_scene =
  container :: container
  gravityValue :: jsnum
  scene :: "handle list"
  camera :: camera
  renderer_size :: "jsnum \<times> jsnum"
  light :: handle
  groundMesh :: handle
  world :: world
  groundMaterial :: material
  ballMaterial :: material
  groundBody :: handle
  ballRadius :: jsnum
  balls :: "ball list"
  gravityInput :: bool
  objects :: "handle \<Rightarrow> object3d"
  rigid :: "handle \<Rightarrow> body_obj"
  next_handle :: handle
  frames :: "frame list"

datatype error = TypeError

section \<open>The library calls the scene makes\<close>

text \<open>
  \<open>Object3D.add\<close> detaches the object from its parent, then pushes it; with one scene
  per controller the parent of a child is that scene. \<open>Object3D.remove\<close> and
  \<open>World.removeBody\<close> splice the first occurrence out, \<open>World.addBody\<close> ignores a body
  that is already in the world.
\<close>

definition scene_add :: "handle \<Rightarrow> handle list \<Rightarrow> handle list" where
  "scene_add h cs = remove1 h cs @ [h]"

definition scene_remove :: "handle \<Rightarrow> handle list \<Rightarrow> handle list" where
  "scene_remove h cs = remove1 h cs"

definition addBody :: "handle \<Rightarrow> world \<Rightarrow> world" where
  "addBody h w = (if h \<in> set (bodies w) then w else w\<lparr>bodies := bodies w @ [h]\<rparr>)"

definition removeBody :: "handle \<Rightarrow> world \<Rightarrow> world" where
  "removeBody h w = w\<lparr>bodies := remove1 h (bodies w)\<rparr>"

definition new_object3d :: object3d where
  "new_object3d =
     \<lparr>obj_position = Vec3 (Num 0) (Num 0) (Num 0),
      obj_quaternion = Quat (Num 0) (Num 0) (Num 0) (Num 1),
      obj_geometry = NoGeometry, castShadow = False, receiveShadow = False\<rparr>"

definition new_body :: "jsnum \<Rightarrow> shape \<Rightarrow> material \<Rightarrow> body_obj" where
  "new_body m sh mat =
     \<lparr>body_position = Vec3 (Num 0) (Num 0) (Num 0),
      body_quaternion = Quat (Num 0) (Num 0) (Num 0) (Num 1),
      body_velocity = Vec3 (Num 0) (Num 0) (Num 0),
      mass = m, body_shape = sh, body_material = mat, linearDamping = Num 0.01\<rparr>"

definition updateProjectionMatrix :: "camera \<Rightarrow> camera" where
  "updateProjectionMatrix c = c\<lparr>projection := (fov c, aspect c, near c, far c)\<rparr>"

definition splice1 :: "nat \<Rightarrow> 'a list \<Rightarrow> 'a list" where
  "splice1 i xs = take i xs @ drop (Suc i) xs"

text \<open>
  The functions the host and the physics library supply, taken as parameters:
  \<open>parseFloat\<close>, \<open>World.step(dt, timeSinceLastCalled)\<close> and \<open>Vec3.length()\<close>. The step reads
  the world (its gravity, its list of bodies, its contact materials) and the state of the
  bodies, and returns the new state of the bodies; it adds no body to the world and removes
  none, and it does not touch the scene. The length is whatever double the library
  returns for a vector. Nothing else is assumed of the three functions.
\<close>

record externals =
  parseFloat :: "string \<Rightarrow> jsnum"
  vec3_length :: "vec3 \<Rightarrow> jsnum"
  world_step :: "jsnum \<Rightarrow> jsnum \<Rightarrow> world \<Rightarrow> (handle \<Rightarrow> body_obj) \<Rightarrow> (handle \<Rightarrow> body_obj)"

section \<open>GravityScene\<close>

definition onWindowResize :: "gravity_scene \<Rightarrow> gravity_scene" where
  "onWindowResize s =
     (let w = Num (of_nat (clientWidth (container s)));
          h = Num (of_nat (clientHeight (container s)))
      in s\<lparr>camera := updateProjectionMatrix ((camera s)\<lparr>aspect := js_div w h\<rparr>),
           renderer_size := (w, h)\<rparr>)"

text \<open>The constructor; the light is handle 0, the ground mesh 1 and the ground body 2.\<close>

definition GravityScene :: "container \<Rightarrow> jsnum \<Rightarrow> gravity_scene" where
  "GravityScene c g =
     (let cw = Num (of_nat (clientWidth c)); ch = Num (of_nat (clientHeight c));
          lightObj = new_object3d\<lparr>obj_position := Vec3 (Num 5) (Num 10) (Num 7)\<rparr>;
          groundObj = new_object3d
            \<lparr>obj_position := Vec3 (Num 0) (Num 1) (Num 0),
             obj_quaternion := setFromEuler_x (- pi / 2),
             obj_geometry := PlaneGeometry (Num 20) (Num 20),
             receiveShadow := True\<rparr>;
          gm = Material ''groundMaterial'';
          bm = Material ''ballMaterial'';
          groundB = (new_body (Num 0) Plane gm)
            \<lparr>body_quaternion := setFromEuler_x (- pi / 2),
             body_position := Vec3 (Num 0) (Num 1) (Num 0)\<rparr>
      in onWindowResize
        \<lparr>container = c,
         gravityValue = g,
         scene = scene_add 1 (scene_add 0 []),
         camera = \<lparr>fov = Num 60, aspect = js_div cw ch, near = Num 0.1, far = Num 1000,
                   camera_position = Vec3 (Num 0) (Num 5) (Num 10),
                   projection = (Num 60, js_div cw ch, Num 0.1, Num 1000)\<rparr>,
         renderer_size = (cw, ch),
         light = 0,
         groundMesh = 1,
         world = addBody 2
           \<lparr>gravity = Vec3 (Num 0) (js_neg g) (Num 0), bodies = [],
            contactmaterials =
              [\<lparr>cm_first = bm, cm_second = gm, friction = Num 0.4, restitution = Num 0.8\<rparr>,
               \<lparr>cm_first = bm, cm_second = bm, friction = Num 0.3, restitution = Num 0.9\<rparr>],
            solver_iterations = 10\<rparr>,
         groundMaterial = gm,
         ballMaterial = bm,
         groundBody = 2,
         ballRadius = Num 1,
         balls = [],
         gravityInput = has_gravityInput c,
         objects = (\<lambda>_. new_object3d)(0 := lightObj, 1 := groundObj),
         rigid = (\<lambda>_. new_body (Num 0) Plane gm)(2 := groundB),
         next_handle = 3,
         frames = []\<rparr>)"

text \<open>The \<open>change\<close> listener of the gravity input (registered only when the input exists).\<close>

definition gravityInput_change :: "(string \<Rightarrow> jsnum) \<Rightarrow> string \<Rightarrow> gravity_scene \<Rightarrow> gravity_scene" where
  "gravityInput_change pf v s =
     (let val = pf v
      in if \<not> isNaN val
         then (let s1 = s\<lparr>gravityValue := val\<rparr>
               in s1\<lparr>world := (world s1)\<lparr>gravity := Vec3 (Num 0) (js_neg (gravityValue s1)) (Num 0)\<rparr>\<rparr>)
         else s)"

definition addBall :: "gravity_scene \<Rightarrow> gravity_scene" where
  "addBall s =
     (let ballMesh = next_handle s;
          meshObj = new_object3d\<lparr>obj_geometry := SphereGeometry (ballRadius s) 32 32, castShadow := True\<rparr>;
          ballBody = Suc (next_handle s);
          bodyObj = (new_body (Num 5) (Sphere (ballRadius s)) (ballMaterial s))
            \<lparr>body_position := Vec3 (Num 0) (Num 8) (Num 0), linearDamping := Num 0.31\<rparr>
      in s\<lparr>objects := (objects s)(ballMesh := meshObj),
           scene := scene_add ballMesh (scene s),
           rigid := (rigid s)(ballBody := bodyObj),
           world := addBody ballBody (world s),
           balls := balls s @ [\<lparr>mesh = ballMesh, body = ballBody, done_flag = False\<rparr>],
           next_handle := Suc (Suc (next_handle s))\<rparr>)"

text \<open>
  The test of the removal branch, for the ball read at the current index. The velocity is
  the double that the library's \<open>length()\<close> returns. The literal \<open>0.1\<close> is the double nearest
  to one tenth, which lies just above it, and no double lies between the two: for a double
  \<open>v\<close>, \<open>v < 0.1\<close> in JavaScript holds exactly when \<open>v\<close> is below one tenth, which is
  what \<open>js_lt v (Num 0.1)\<close> says.
\<close>

definition resting :: "externals \<Rightarrow> gravity_scene \<Rightarrow> ball \<Rightarrow> bool" where
  "resting ext s b =
     (let velocity = vec3_length ext (body_velocity (rigid s (body b)));
          nearGround = js_le (vy (body_position (rigid s (body b)))) (js_add (ballRadius s) (Num 1))
      in \<not> done_flag b \<and> js_lt velocity (Num 0.1) \<and> nearGround)"

definition sync_mesh :: "ball \<Rightarrow> gravity_scene \<Rightarrow> gravity_scene" where
  "sync_mesh b s =
     s\<lparr>objects := (objects s)(mesh b := (objects s (mesh b))
         \<lparr>obj_position := body_position (rigid s (body b)),
          obj_quaternion := body_quaternion (rigid s (body b))\<rparr>)\<rparr>"

text \<open>One pass through the body of the \<open>for\<close> loop at index \<open>i\<close>. Reading
  \<open>this.balls[i]\<close> past the end gives \<open>undefined\<close>, and \<open>ball.mesh\<close> then throws.\<close>

definition loop_body :: "externals \<Rightarrow> nat \<Rightarrow> gravity_scene \<Rightarrow> error + gravity_scene" where
  "loop_body ext i s =
     (if i < length (balls s)
      then (let b = balls s ! i;
                s1 = sync_mesh b s
            in if resting ext s1 b
               then Inr (s1\<lparr>scene := scene_remove (mesh b) (scene s1),
                            world := removeBody (body b) (world s1),
                            balls := splice1 i ((balls s1)[i := b\<lparr>done_flag := True\<rparr>])\<rparr>)
               else Inr s1)
      else Inl TypeError)"

text \<open>The loop \<open>for (i = n - 1; i >= 0; i--)\<close>, counted by \<open>k = i + 1\<close>.\<close>

fun animate_loop :: "externals \<Rightarrow> nat \<Rightarrow> gravity_scene \<Rightarrow> error + gravity_scene" where
  "animate_loop ext 0 s = Inr s"
| "animate_loop ext (Suc i) s =
     (case loop_body ext i s of Inl e \<Rightarrow> Inl e | Inr s' \<Rightarrow> animate_loop ext i s')"

text \<open>The values bound to \<open>const ball\<close>, in the order of the iterations.\<close>

fun animate_visits :: "externals \<Rightarrow> nat \<Rightarrow> gravity_scene \<Rightarrow> ball list" where
  "animate_visits ext 0 s = []"
| "animate_visits ext (Suc i) s =
     (case loop_body ext i s of Inl e \<Rightarrow> [] | Inr s' \<Rightarrow> (balls s ! i) # animate_visits ext i s')"

definition render :: "gravity_scene \<Rightarrow> gravity_scene" where
  "render s =
     s\<lparr>frames := frames s @
        [(map (\<lambda>h. (h, obj_position (objects s h), obj_quaternion (objects s h))) (scene s),
          projection (camera s))]\<rparr>"

definition physics_step :: "externals \<Rightarrow> jsnum \<Rightarrow> gravity_scene \<Rightarrow> gravity_scene" where
  "physics_step ext delta s =
     s\<lparr>rigid := world_step ext (js_div (Num 1) (Num 60)) delta (world s) (rigid s)\<rparr>"

definition animate :: "externals \<Rightarrow> jsnum \<Rightarrow> gravity_scene \<Rightarrow> error + gravity_scene" where
  "animate ext delta s =
     (let s1 = physics_step ext delta s
      in case animate_loop ext (length (balls s1)) s1 of
           Inl e \<Rightarrow> Inl e
         | Inr s2 \<Rightarrow> Inr (render s2))"

section \<open>Events\<close>

datatype event = Click | Change string | Resize nat nat | AnimationFrame jsnum

fun dispatch :: "externals \<Rightarrow> event \<Rightarrow> gravity_scene \<Rightarrow> error + gravity_scene" where
  "dispatch ext Click s = Inr (addBall s)"
| "dispatch ext (Change v) s =
     Inr (if gravityInput s then gravityInput_change (parseFloat ext) v s else s)"
| "dispatch ext (Resize w h) s =
     Inr (onWindowResize (s\<lparr>container := (container s)\<lparr>clientWidth := w, clientHeight := h\<rparr>\<rparr>))"
| "dispatch ext (AnimationFrame delta) s = animate ext delta s"

fun run :: "externals \<Rightarrow> event list \<Rightarrow> gravity_scene \<Rightarrow> error + gravity_scene" where
  "run ext [] s = Inr s"
| "run ext (e # es) s =
     (case dispatch ext e s of Inl err \<Rightarrow> Inl err | Inr s' \<Rightarrow> run ext es s')"

section \<open>Derived notions used in the proofs\<close>

text \<open>The net effect of the removal branch at index \<open>i\<close>: the flag just set goes
  away with the ball.\<close>

definition remove_ball :: "nat \<Rightarrow> gravity_scene \<Rightarrow> gravity_scene" where
  "remove_ball i s =
     s\<lparr>scene := scene_remove (mesh (balls s ! i)) (scene s),
       world := removeBody (body (balls s ! i)) (world s),
       balls := splice1 i (balls s)\<rparr>"

text \<open>
  The pairing of the three collections: the scene holds the light, the ground mesh and
  then one mesh per ball, in the order of the ball list; the world holds the ground body
  and then one body per ball; no handle occurs twice, and every handle in use was
  handed out before \<open>next_handle\<close>.
\<close>

definition handles_paired :: "gravity_scene \<Rightarrow> bool" where
  "handles_paired s \<longleftrightarrow>
     scene s = light s # groundMesh s # map mesh (balls s) \<and>
     bodies (world s) = groundBody s # map body (balls s) \<and>
     distinct (scene s) \<and> distinct (bodies (world s)) \<and>
     list_all (\<lambda>h. h < next_handle s) (scene s) \<and>
     list_all (\<lambda>h. h < next_handle s) (bodies (world s))"

text \<open>The gravity vector points straight down with the stored magnitude.\<close>

definition gravity_points_down :: "gravity_scene \<Rightarrow> bool" where
  "gravity_points_down s \<longleftrightarrow> gravity (world s) = Vec3 (Num 0) (js_neg (gravityValue s)) (Num 0)"

text \<open>No ball of the list carries the flag.\<close>

definition none_done :: "gravity_scene \<Rightarrow> bool" where
  "none_done s \<longleftrightarrow> list_all (\<lambda>b. \<not> done_flag b) (balls s)"

text \<open>
  What any run keeps between a state and a later one: handles are only handed out
  upwards, the light and the ground keep their handles, and a ball of the later list is
  either a ball of the earlier list or one made of handles handed out since.
\<close>

definition later_state :: "gravity_scene \<Rightarrow> gravity_scene \<Rightarrow> bool" where
  "later_state s s' \<longleftrightarrow>
     next_handle s \<le> next_handle s' \<and>
     light s' = light s \<and> groundMesh s' = groundMesh s \<and> groundBody s' = groundBody s \<and>
     list_all (\<lambda>b. b \<in> set (balls s) \<or> next_handle s \<le> mesh b \<and> next_handle s \<le> body b)
       (balls s')"

text \<open>The mesh of a ball has the transform of its body.\<close>

definition synced :: "gravity_scene \<Rightarrow> ball \<Rightarrow> bool" where
  "synced s b \<longleftrightarrow>
     obj_position (objects s (mesh b)) = body_position (rigid s (body b)) \<and>
     obj_quaternion (objects s (mesh b)) = body_quaternion (rigid s (body b))"

text \<open>A host for concrete runs: the standard \<open>parseFloat\<close>, the exact norm as the length, and
  a physics step that puts the body with handle 4 at rest on the ground, turned half round
  the z axis, and leaves every other body alone.\<close>

definition sample_externals :: externals where
  "sample_externals =
     \<lparr>parseFloat = js_parseFloat,
      vec3_length = exact_length,
      world_step = (\<lambda>dt d w st. st(4 := (st 4)
        \<lparr>body_position := Vec3 (Num 0) (Num 2) (Num 0),
         body_quaternion := Quat (Num 0) (Num 0) (Num 1) (Num 0),
         body_velocity := Vec3 (Num 0) (Num 0) (Num 0)\<rparr>))\<rparr>"

definition sample_container :: container where
  "sample_container = \<lparr>clientWidth = 800, clientHeight = 600, has_gravityInput = True\<rparr>"

section \<open>Facts about \<open>parseFloat\<close>\<close>

lemmas parse_eval =
  js_parseFloat_def StrDecimalLiteral_def StrUnsignedDecimalLiteral_def ExponentPart_def
  StrWhiteSpaceChar_def is_digit_def digit_value_def digits_value_def scale10_def Let_def

lemma js_parseFloat_3_7: "js_parseFloat ''3.7'' = Num 3.7"
  by (simp add: parse_eval)

lemma js_parseFloat_fast: "js_parseFloat ''fast'' = NaN"
  by (simp add: parse_eval)


lemma js_parseFloat_examples:
  "js_parseFloat ''.5'' = Num 0.5 \<and> js_parseFloat ''5.'' = Num 5 \<and> js_parseFloat ''.'' = NaN \<and>
   js_parseFloat ''1e'' = Num 1 \<and> js_parseFloat ''1E-2'' = Num 0.01 \<and>
   js_parseFloat ''5.e3'' = Num 5000 \<and> js_parseFloat ''.e3'' = NaN \<and>
   js_parseFloat ''-Infinityx'' = NegInf \<and> js_parseFloat ''+-5'' = NaN \<and>
   js_parseFloat ''- 5'' = NaN \<and> js_parseFloat ''0x10'' = Num 0 \<and> js_parseFloat [] = NaN \<and>
   js_parseFloat ''  -1.5e2xyz'' = Num (- 150)"
  by (simp add: parse_eval)


lemma has_numeric_prefix_examples:
  "is_numeric_string '' 12.5 '' \<and> \<not> has_numeric_prefix ''fast'' \<and> has_numeric_prefix ''12abc''"
  by (simp add: is_numeric_string_def has_numeric_prefix_def starts_unsigned_def parse_eval)



lemma ExponentPart_cases:
  "(case ExponentPart r of Some (e, r3) \<Rightarrow> (Num (f e), r3) | None \<Rightarrow> (Num m, r)) = (n, rest) \<Longrightarrow>
   n \<noteq> NaN"
  by (auto split: option.splits prod.splits)






section \<open>The loop of \<open>animate\<close>\<close>

lemma resting_cong:
  "rigid s' = rigid s \<Longrightarrow> ballRadius s' = ballRadius s \<Longrightarrow> resting ext s' b = resting ext s b"
  by (simp add: resting_def)

lemma resting_sync_mesh: "resting ext (sync_mesh c s) b = resting ext s b"
  by (simp add: resting_def sync_mesh_def)

lemma splice1_update: "splice1 i (xs[i := x]) = splice1 i xs"
  by (simp add: splice1_def)

lemma length_splice1: "i < length xs \<Longrightarrow> length (splice1 i xs) = length xs - 1"
  by (simp add: splice1_def)

lemma take_splice1: "take i (splice1 i xs) = take i xs"
  by (simp add: splice1_def min_def)

lemma drop_splice1: "drop i (splice1 i xs) = drop (Suc i) xs"
  by (cases "i \<le> length xs") (simp_all add: splice1_def min_def)

lemma sync_mesh_fields:
  "balls (sync_mesh b s) = balls s"
  "scene (sync_mesh b s) = scene s"
  "world (sync_mesh b s) = world s"
  "rigid (sync_mesh b s) = rigid s"
  "ballRadius (sync_mesh b s) = ballRadius s"
  by (simp_all add: sync_mesh_def)

lemma loop_body_in_range:
  "i < length (balls s) \<Longrightarrow>
   loop_body ext i s =
     Inr (if resting ext s (balls s ! i)
          then remove_ball i (sync_mesh (balls s ! i) s)
          else sync_mesh (balls s ! i) s)"
  by (simp add: loop_body_def Let_def resting_sync_mesh sync_mesh_fields splice1_update
      remove_ball_def)

lemma loop_body_InrD:
  assumes "loop_body ext i s = Inr s'"
  shows "i < length (balls s)"
    and "s' = (if resting ext s (balls s ! i)
          then remove_ball i (sync_mesh (balls s ! i) s)
          else sync_mesh (balls s ! i) s)"
proof -
  show i: "i < length (balls s)"
    using assms by (cases "i < length (balls s)") (simp_all add: loop_body_def)
  show "s' = (if resting ext s (balls s ! i)
          then remove_ball i (sync_mesh (balls s ! i) s)
          else sync_mesh (balls s ! i) s)"
    using assms loop_body_in_range [OF i] by simp
qed

lemma loop_body_balls:
  "loop_body ext i s = Inr s' \<Longrightarrow>
   balls s' = (if resting ext s (balls s ! i) then splice1 i (balls s) else balls s)"
  using loop_body_InrD(2) [of ext i s s'] by (simp add: remove_ball_def sync_mesh_fields)

lemma loop_body_frame:
  "loop_body ext i s = Inr s' \<Longrightarrow> rigid s' = rigid s \<and> ballRadius s' = ballRadius s"
  using loop_body_InrD(2) [of ext i s s'] by (simp add: remove_ball_def sync_mesh_fields)

lemma loop_body_objects:
  "loop_body ext i s = Inr s' \<Longrightarrow> objects s' = objects (sync_mesh (balls s ! i) s)"
  using loop_body_InrD(2) [of ext i s s'] by (simp add: remove_ball_def)

lemma animate_loop_Suc_InrD:
  assumes "animate_loop ext (Suc i) s = Inr s'"
  obtains s1 where "loop_body ext i s = Inr s1" and "animate_loop ext i s1 = Inr s'"
  using assms by (cases "loop_body ext i s") simp_all

lemma loop_body_length:
  "loop_body ext i s = Inr s1 \<Longrightarrow> i \<le> length (balls s1)"
  using loop_body_InrD(1) [of ext i s s1] loop_body_balls [of ext i s s1]
  by (simp add: length_splice1 split: if_splits)

lemma loop_body_take:
  "loop_body ext i s = Inr s1 \<Longrightarrow> take i (balls s1) = take i (balls s)"
  using loop_body_balls [of ext i s s1] by (simp add: take_splice1 split: if_splits)

lemma animate_loop_total:
  "k \<le> length (balls s) \<Longrightarrow> \<exists>s'. animate_loop ext k s = Inr s'"
proof (induction k arbitrary: s)
  case 0
  show ?case by simp
next
  case (Suc i)
  from Suc.prems have i: "i < length (balls s)" by simp
  then obtain s1 where s1: "loop_body ext i s = Inr s1"
    using loop_body_in_range by blast
  from Suc.IH [OF loop_body_length [OF s1]] s1 show ?case by simp
qed

lemma animate_loop_frame:
  "animate_loop ext k s = Inr s' \<Longrightarrow> rigid s' = rigid s \<and> ballRadius s' = ballRadius s"
proof (induction k arbitrary: s)
  case 0
  then show ?case by simp
next
  case (Suc i)
  from Suc.prems obtain s1 where s1: "loop_body ext i s = Inr s1" and r: "animate_loop ext i s1 = Inr s'"
    by (rule animate_loop_Suc_InrD)
  from Suc.IH [OF r] loop_body_frame [OF s1] show ?case by simp
qed

lemma animate_loop_balls:
  "animate_loop ext k s = Inr s' \<Longrightarrow>
   balls s' = filter (\<lambda>b. \<not> resting ext s b) (take k (balls s)) @ drop k (balls s)"
proof (induction k arbitrary: s)
  case 0
  then show ?case by simp
next
  case (Suc i)
  from Suc.prems obtain s1 where s1: "loop_body ext i s = Inr s1" and r: "animate_loop ext i s1 = Inr s'"
    by (rule animate_loop_Suc_InrD)
  have i: "i < length (balls s)" by (rule loop_body_InrD(1) [OF s1])
  have fr: "\<And>b. resting ext s1 b = resting ext s b"
    by (rule resting_cong) (simp_all add: loop_body_frame [OF s1])
  have b1: "balls s1 = (if resting ext s (balls s ! i) then splice1 i (balls s) else balls s)"
    by (rule loop_body_balls [OF s1])
  have "balls s' = filter (\<lambda>b. \<not> resting ext s b) (take i (balls s1)) @ drop i (balls s1)"
    using Suc.IH [OF r] fr by simp
  moreover have "drop i (balls s1) =
      (if resting ext s (balls s ! i) then drop (Suc i) (balls s) else balls s ! i # drop (Suc i) (balls s))"
    using i b1 by (simp add: drop_splice1 Cons_nth_drop_Suc)
  ultimately show ?case
    using i loop_body_take [OF s1] by (simp add: take_Suc_conv_app_nth)
qed

lemma animate_visits_rev:
  "k \<le> length (balls s) \<Longrightarrow> animate_visits ext k s = rev (take k (balls s))"
proof (induction k arbitrary: s)
  case 0
  then show ?case by simp
next
  case (Suc i)
  then have i: "i < length (balls s)" by simp
  then obtain s1 where s1: "loop_body ext i s = Inr s1"
    using loop_body_in_range by blast
  from Suc.IH [OF loop_body_length [OF s1]] s1 i loop_body_take [OF s1] show ?case
    by (simp add: take_Suc_conv_app_nth)
qed

lemma fold_sync_objects:
  "objects s1 = objects s2 \<Longrightarrow> rigid s1 = rigid s2 \<Longrightarrow>
   objects (fold sync_mesh bs s1) = objects (fold sync_mesh bs s2) \<and>
   rigid (fold sync_mesh bs s1) = rigid (fold sync_mesh bs s2)"
  by (induction bs arbitrary: s1 s2) (simp_all add: sync_mesh_def)

lemma animate_loop_objects:
  "animate_loop ext k s = Inr s' \<Longrightarrow>
   objects s' = objects (fold sync_mesh (rev (take k (balls s))) s)"
proof (induction k arbitrary: s)
  case 0
  then show ?case by simp
next
  case (Suc i)
  from Suc.prems obtain s1 where s1: "loop_body ext i s = Inr s1" and r: "animate_loop ext i s1 = Inr s'"
    by (rule animate_loop_Suc_InrD)
  have i: "i < length (balls s)" by (rule loop_body_InrD(1) [OF s1])
  have "objects s' = objects (fold sync_mesh (rev (take i (balls s1))) s1)"
    by (rule Suc.IH [OF r])
  also have "take i (balls s1) = take i (balls s)" by (rule loop_body_take [OF s1])
  also have "objects (fold sync_mesh (rev (take i (balls s))) s1) =
      objects (fold sync_mesh (rev (take i (balls s))) (sync_mesh (balls s ! i) s))"
    using fold_sync_objects [of s1 "sync_mesh (balls s ! i) s" "rev (take i (balls s))"]
      loop_body_objects [OF s1] loop_body_frame [OF s1]
    by (simp add: sync_mesh_fields)
  finally show ?case
    using i by (simp add: take_Suc_conv_app_nth)
qed

section \<open>Preservation of the pairing\<close>

lemma remove1_map_nth:
  "distinct (map f xs) \<Longrightarrow> i < length xs \<Longrightarrow>
   remove1 (f (xs ! i)) (map f xs) = map f (splice1 i xs)"
proof (induction xs arbitrary: i)
  case Nil
  then show ?case by simp
next
  case (Cons x xs)
  show ?case
  proof (cases i)
    case 0
    then show ?thesis by (simp add: splice1_def)
  next
    case (Suc j)
    with Cons.prems have "f (xs ! j) \<in> f ` set xs" by simp
    with Cons.prems have "f (xs ! j) \<noteq> f x" by auto
    with Suc Cons show ?thesis by (simp add: splice1_def)
  qed
qed

lemma set_splice1: "set (splice1 i xs) \<subseteq> set xs"
  unfolding splice1_def using set_take_subset [of i xs] set_drop_subset [of "Suc i" xs]
  by auto

lemma sync_mesh_more_fields:
  "light (sync_mesh b s) = light s"
  "groundMesh (sync_mesh b s) = groundMesh s"
  "groundBody (sync_mesh b s) = groundBody s"
  "next_handle (sync_mesh b s) = next_handle s"
  "gravityValue (sync_mesh b s) = gravityValue s"
  "frames (sync_mesh b s) = frames s"
  by (simp_all add: sync_mesh_def)

lemma handles_paired_sync_mesh:
  "handles_paired (sync_mesh b s) = handles_paired s"
  by (simp add: handles_paired_def sync_mesh_fields sync_mesh_more_fields)

lemma handles_paired_remove_ball:
  assumes "handles_paired s" and i: "i < length (balls s)"
  shows "handles_paired (remove_ball i s)"
proof -
  let ?b = "balls s ! i"
  from assms have sc: "scene s = light s # groundMesh s # map mesh (balls s)"
    and bo: "bodies (world s) = groundBody s # map body (balls s)"
    and d1: "distinct (scene s)" and d2: "distinct (bodies (world s))"
    and a1: "list_all (\<lambda>h. h < next_handle s) (scene s)"
    and a2: "list_all (\<lambda>h. h < next_handle s) (bodies (world s))"
    unfolding handles_paired_def by blast+
  have m: "mesh ?b \<in> set (map mesh (balls s))" using i by simp
  have dm: "distinct (map mesh (balls s))" using d1 sc by simp
  have "mesh ?b \<noteq> light s" "mesh ?b \<noteq> groundMesh s" using d1 sc m by auto
  then have s': "scene_remove (mesh ?b) (scene s) =
      light s # groundMesh s # map mesh (splice1 i (balls s))"
    using sc remove1_map_nth [OF dm i] by (simp add: scene_remove_def)
  have b: "body ?b \<in> set (map body (balls s))" using i by simp
  have db: "distinct (map body (balls s))" using d2 bo by simp
  have "body ?b \<noteq> groundBody s" using d2 bo b by auto
  then have b': "bodies (removeBody (body ?b) (world s)) =
      groundBody s # map body (splice1 i (balls s))"
    using bo remove1_map_nth [OF db i] by (simp add: removeBody_def)
  have d1': "distinct (scene_remove (mesh ?b) (scene s))"
    using d1 by (simp add: scene_remove_def)
  have d2': "distinct (bodies (removeBody (body ?b) (world s)))"
    using d2 by (simp add: removeBody_def)
  have a1': "list_all (\<lambda>h. h < next_handle s) (scene_remove (mesh ?b) (scene s))"
    using a1 set_remove1_subset [of "mesh ?b" "scene s"]
    by (auto simp: scene_remove_def list_all_iff)
  have a2': "list_all (\<lambda>h. h < next_handle s) (bodies (removeBody (body ?b) (world s)))"
    using a2 set_remove1_subset [of "body ?b" "bodies (world s)"]
    by (auto simp: removeBody_def list_all_iff)
  show ?thesis
    using s' b' d1' d2' a1' a2' by (simp add: handles_paired_def remove_ball_def)
qed

lemma handles_paired_loop_body:
  assumes "handles_paired s" and "loop_body ext i s = Inr s'"
  shows "handles_paired s'"
proof -
  have i: "i < length (balls (sync_mesh (balls s ! i) s))"
    using loop_body_InrD(1) [OF assms(2)] by (simp add: sync_mesh_fields)
  have p: "handles_paired (sync_mesh (balls s ! i) s)"
    using assms(1) by (simp add: handles_paired_sync_mesh)
  show ?thesis
    using loop_body_InrD(2) [OF assms(2)] p handles_paired_remove_ball [OF p i]
    by (simp split: if_splits)
qed

lemma handles_paired_animate_loop:
  "handles_paired s \<Longrightarrow> animate_loop ext k s = Inr s' \<Longrightarrow> handles_paired s'"
proof (induction k arbitrary: s)
  case 0
  then show ?case by simp
next
  case (Suc i)
  from Suc.prems(2) obtain s1 where s1: "loop_body ext i s = Inr s1" and r: "animate_loop ext i s1 = Inr s'"
    by (rule animate_loop_Suc_InrD)
  from Suc.IH [OF handles_paired_loop_body [OF Suc.prems(1) s1] r] show ?case .
qed

lemma animate_InrD:
  assumes "animate ext delta s = Inr s'"
  obtains s2 where "animate_loop ext (length (balls s)) (physics_step ext delta s) = Inr s2"
    and "s' = render s2"
proof -
  have "balls (physics_step ext delta s) = balls s" by (simp add: physics_step_def)
  with assms that show thesis
    by (cases "animate_loop ext (length (balls s)) (physics_step ext delta s)")
       (simp_all add: animate_def Let_def)
qed

lemma animate_total: "\<exists>s'. animate ext delta s = Inr s'"
proof -
  obtain s2 where "animate_loop ext (length (balls (physics_step ext delta s))) (physics_step ext delta s) = Inr s2"
    using animate_loop_total [of "length (balls (physics_step ext delta s))" "physics_step ext delta s" ext]
    by auto
  then show ?thesis by (simp add: animate_def Let_def)
qed

lemma handles_paired_physics_step:
  "handles_paired (physics_step ext delta s) = handles_paired s"
  by (simp add: handles_paired_def physics_step_def)

lemma handles_paired_render: "handles_paired (render s) = handles_paired s"
  by (simp add: handles_paired_def render_def)

lemma handles_paired_animate:
  assumes "handles_paired s" and "animate ext delta s = Inr s'"
  shows "handles_paired s'"
proof -
  from assms(2) obtain s2 where l: "animate_loop ext (length (balls s)) (physics_step ext delta s) = Inr s2"
    and s': "s' = render s2" by (rule animate_InrD)
  have "handles_paired (physics_step ext delta s)"
    using assms(1) by (simp add: handles_paired_physics_step)
  from handles_paired_animate_loop [OF this l] s' show ?thesis
    by (simp add: handles_paired_render)
qed

lemma handles_paired_addBall:
  assumes "handles_paired s"
  shows "handles_paired (addBall s)"
proof -
  from assms have sc: "scene s = light s # groundMesh s # map mesh (balls s)"
    and bo: "bodies (world s) = groundBody s # map body (balls s)"
    and d1: "distinct (scene s)" and d2: "distinct (bodies (world s))"
    and a1: "list_all (\<lambda>h. h < next_handle s) (scene s)"
    and a2: "list_all (\<lambda>h. h < next_handle s) (bodies (world s))"
    unfolding handles_paired_def by blast+
  have n1: "next_handle s \<notin> set (scene s)" using a1 by (auto simp: list_all_iff)
  have n2: "Suc (next_handle s) \<notin> set (bodies (world s))" using a2 by (auto simp: list_all_iff)
  have s': "scene_add (next_handle s) (scene s) = scene s @ [next_handle s]"
    using n1 by (simp add: scene_add_def remove1_idem)
  have b': "bodies (addBody (Suc (next_handle s)) (world s)) = bodies (world s) @ [Suc (next_handle s)]"
    using n2 by (simp add: addBody_def)
  have a1': "list_all (\<lambda>h. h < Suc (Suc (next_handle s))) (scene s)"
    using a1 by (auto simp: list_all_iff)
  have a2': "list_all (\<lambda>h. h < Suc (Suc (next_handle s))) (bodies (world s))"
    using a2 by (auto simp: list_all_iff)
  have sc2: "scene s @ [next_handle s] = light s # groundMesh s # map mesh (balls s) @ [next_handle s]"
    using sc by simp
  have bo2: "bodies (world s) @ [Suc (next_handle s)] = groundBody s # map body (balls s) @ [Suc (next_handle s)]"
    using bo by simp
  show ?thesis
    unfolding handles_paired_def addBall_def Let_def
    using s' b' n1 n2 d1 d2 a1' a2' sc2 bo2 by simp
qed

lemma handles_paired_gravityInput_change:
  "handles_paired s \<Longrightarrow> handles_paired (gravityInput_change pf v s)"
  by (auto simp: handles_paired_def gravityInput_change_def Let_def)

lemma handles_paired_onWindowResize:
  "handles_paired (onWindowResize s) = handles_paired s"
  by (simp add: handles_paired_def onWindowResize_def Let_def)

lemma handles_paired_container_update:
  "handles_paired (s\<lparr>container := c\<rparr>) = handles_paired s"
  by (simp add: handles_paired_def)

lemma handles_paired_GravityScene: "handles_paired (GravityScene c g)"
  by (simp add: GravityScene_def Let_def handles_paired_onWindowResize)
     (simp add: handles_paired_def scene_add_def addBody_def)

lemma handles_paired_dispatch:
  assumes "handles_paired s" and "dispatch ext e s = Inr s'"
  shows "handles_paired s'"
proof (cases e)
  case Click
  with assms show ?thesis by (auto simp: handles_paired_addBall)
next
  case (Change v)
  with assms show ?thesis by (auto simp: handles_paired_gravityInput_change)
next
  case (Resize w h)
  with assms show ?thesis
    by (auto simp: handles_paired_onWindowResize handles_paired_container_update)
next
  case (AnimationFrame delta)
  with assms show ?thesis by (auto intro: handles_paired_animate)
qed

lemma dispatch_total: "\<exists>s'. dispatch ext e s = Inr s'"
  by (cases e) (simp_all add: animate_total)

lemma run_total: "\<exists>s'. run ext es s = Inr s'"
proof (induction es arbitrary: s)
  case Nil
  show ?case by simp
next
  case (Cons e es)
  obtain s1 where s1: "dispatch ext e s = Inr s1" using dispatch_total by blast
  with Cons.IH [of s1] show ?case by simp
qed

lemma run_Cons_InrD:
  assumes "run ext (e # es) s = Inr s'"
  obtains s1 where "dispatch ext e s = Inr s1" and "run ext es s1 = Inr s'"
  using assms by (cases "dispatch ext e s") simp_all

lemma handles_paired_run:
  "handles_paired s \<Longrightarrow> run ext es s = Inr s' \<Longrightarrow> handles_paired s'"
proof (induction es arbitrary: s)
  case Nil
  then show ?case by simp
next
  case (Cons e es)
  from Cons.prems(2) obtain s1 where s1: "dispatch ext e s = Inr s1" and r: "run ext es s1 = Inr s'"
    by (rule run_Cons_InrD)
  from Cons.IH [OF handles_paired_dispatch [OF Cons.prems(1) s1] r] show ?case .
qed

section \<open>Runs of events\<close>

lemma run_invariant:
  assumes "P s"
    and "\<And>e s s'. P s \<Longrightarrow> dispatch ext e s = Inr s' \<Longrightarrow> P s'"
    and "run ext es s = Inr s'"
  shows "P s'"
  using assms(1,3)
proof (induction es arbitrary: s)
  case Nil
  then show ?case by simp
next
  case (Cons e es)
  from Cons.prems(2) obtain s1 where s1: "dispatch ext e s = Inr s1" and r: "run ext es s1 = Inr s'"
    by (rule run_Cons_InrD)
  from Cons.IH [OF assms(2) [OF Cons.prems(1) s1] r] show ?case .
qed

lemma animate_loop_invariant:
  assumes "P s"
    and "\<And>i s s'. P s \<Longrightarrow> loop_body ext i s = Inr s' \<Longrightarrow> P s'"
    and "animate_loop ext k s = Inr s'"
  shows "P s'"
  using assms(1,3)
proof (induction k arbitrary: s)
  case 0
  then show ?case by simp
next
  case (Suc i)
  from Suc.prems(2) obtain s1 where s1: "loop_body ext i s = Inr s1" and r: "animate_loop ext i s1 = Inr s'"
    by (rule animate_loop_Suc_InrD)
  from Suc.IH [OF assms(2) [OF Suc.prems(1) s1] r] show ?case .
qed

lemma loop_body_gravity:
  assumes "loop_body ext i s = Inr s'"
  shows "gravity (world s') = gravity (world s) \<and> gravityValue s' = gravityValue s"
  using loop_body_InrD(2) [OF assms]
  by (simp add: remove_ball_def removeBody_def sync_mesh_fields sync_mesh_more_fields split: if_splits)

lemma animate_gravity:
  assumes "animate ext delta s = Inr s'"
  shows "gravity (world s') = gravity (world s) \<and> gravityValue s' = gravityValue s"
proof -
  from assms obtain s2 where l: "animate_loop ext (length (balls s)) (physics_step ext delta s) = Inr s2"
    and s': "s' = render s2" by (rule animate_InrD)
  let ?P = "\<lambda>t. gravity (world t) = gravity (world s) \<and> gravityValue t = gravityValue s"
  have "?P (physics_step ext delta s)" by (simp add: physics_step_def)
  then have "?P s2"
    by (rule animate_loop_invariant [where P = ?P, OF _ _ l]) (simp add: loop_body_gravity)
  with s' show ?thesis by (simp add: render_def)
qed

lemma gravity_points_down_dispatch:
  assumes "gravity_points_down s" and "dispatch ext e s = Inr s'"
  shows "gravity_points_down s'"
proof (cases e)
  case Click
  with assms show ?thesis
    by (auto simp: gravity_points_down_def addBall_def addBody_def Let_def)
next
  case (Change v)
  with assms show ?thesis
    by (auto simp: gravity_points_down_def gravityInput_change_def Let_def)
next
  case (Resize w h)
  with assms show ?thesis
    by (auto simp: gravity_points_down_def onWindowResize_def Let_def)
next
  case (AnimationFrame delta)
  with assms animate_gravity [of ext delta s s'] show ?thesis
    by (simp add: gravity_points_down_def)
qed

lemma gravity_points_down_GravityScene: "gravity_points_down (GravityScene c g)"
  by (simp add: gravity_points_down_def GravityScene_def Let_def onWindowResize_def addBody_def)

section \<open>The gravity vector\<close>

text \<open>
  Claim C10. After the constructor and any sequence of clicks, gravity changes, resizes and
  animation frames, the run has not failed and the world's gravity vector is
  \<open>(0, -gravityValue, 0)\<close> for the stored \<open>gravityValue\<close>: its x and z components are zero,
  because the constructor and the change listener both set the whole vector.
\<close>
theorem gravity_vector_invariant:
  "\<exists>s. run ext es (GravityScene c g) = Inr s \<and>
     gravity (world s) = Vec3 (Num 0) (js_neg (gravityValue s)) (Num 0) \<and>
     vx (gravity (world s)) = Num 0 \<and> vz (gravity (world s)) = Num 0"
proof -
  obtain s where s: "run ext es (GravityScene c g) = Inr s"
    using run_total by blast
  have "gravity_points_down s"
    by (rule run_invariant [where P = gravity_points_down, OF gravity_points_down_GravityScene _ s])
       (rule gravity_points_down_dispatch)
  with s show ?thesis by (simp add: gravity_points_down_def)
qed

text \<open>The definitions a concrete run unfolds.\<close>

lemmas scene_eval =
  js_parseFloat_3_7 js_parseFloat_fast sample_externals_def sample_container_def GravityScene_def onWindowResize_def
  updateProjectionMatrix_def addBall_def gravityInput_change_def isNaN_def
  scene_add_def scene_remove_def addBody_def removeBody_def new_body_def new_object3d_def
  animate_def physics_step_def loop_body_def sync_mesh_def resting_def render_def
  splice1_def Let_def

theorem gravity_vector_invariant_witness:
  "\<exists>s. run sample_externals [Click, Change ''3.7'', AnimationFrame (Num 0), Change ''fast'']
        (GravityScene sample_container (Num 9.8)) = Inr s \<and>
     gravityValue s = Num 3.7 \<and> gravity (world s) = Vec3 (Num 0) (Num (- 3.7)) (Num 0)"
  using gravity_vector_invariant [of sample_externals
        "[Click, Change ''3.7'', AnimationFrame (Num 0), Change ''fast'']" sample_container "Num 9.8"]
  by (simp add: scene_eval)

text \<open>
  Claim C3. When \<open>parseFloat\<close> of the input is a number \<open>v\<close> (not NaN), the change listener
  stores \<open>v\<close> in \<open>gravityValue\<close> and sets the world's gravity vector to \<open>(0, -v, 0)\<close>; the
  next physics step is called on the world with that vector.
\<close>
theorem gravity_change_numeric:
  assumes "\<not> isNaN (parseFloat ext v)"
  shows "gravityValue (gravityInput_change (parseFloat ext) v s) = parseFloat ext v \<and>
    gravity (world (gravityInput_change (parseFloat ext) v s)) =
      Vec3 (Num 0) (js_neg (parseFloat ext v)) (Num 0) \<and>
    rigid (physics_step ext delta (gravityInput_change (parseFloat ext) v s)) =
      world_step ext (js_div (Num 1) (Num 60)) delta
        ((world s)\<lparr>gravity := Vec3 (Num 0) (js_neg (parseFloat ext v)) (Num 0)\<rparr>) (rigid s)"
  using assms by (simp add: gravityInput_change_def physics_step_def Let_def)

theorem gravity_change_numeric_witness:
  "\<not> isNaN (parseFloat sample_externals ''3.7'') \<and>
   gravityValue (gravityInput_change (parseFloat sample_externals) ''3.7''
     (GravityScene sample_container (Num 9.8))) = Num 3.7 \<and>
   gravity (world (gravityInput_change (parseFloat sample_externals) ''3.7''
     (GravityScene sample_container (Num 9.8)))) = Vec3 (Num 0) (Num (- 3.7)) (Num 0)"
proof -
  have n: "\<not> isNaN (parseFloat sample_externals ''3.7'')"
    by (simp add: sample_externals_def isNaN_def js_parseFloat_3_7)
  have p: "parseFloat sample_externals ''3.7'' = Num 3.7"
    by (simp add: sample_externals_def js_parseFloat_3_7)
  from gravity_change_numeric [OF n, of "GravityScene sample_container (Num 9.8)"] n p
  show ?thesis by simp
qed





section \<open>Resizing\<close>

text \<open>
  Claim C8. A resize to a container of \<open>w\<close> by \<open>h\<close> pixels sets the camera's aspect to the
  quotient \<open>w / h\<close> (infinite or NaN when \<open>h\<close> is zero, as the division gives), recomputes
  the projection from it, sets the renderer's size to \<open>(w, h)\<close>, and changes nothing else:
  the world, the balls, the gravity, the ground and both stores stay as they were.
\<close>
theorem resize_sets_aspect_and_viewport:
  "\<exists>s'. dispatch ext (Resize w h) s = Inr s' \<and>
     aspect (camera s') = js_div (Num (real w)) (Num (real h)) \<and>
     renderer_size s' = (Num (real w), Num (real h)) \<and>
     projection (camera s') =
       (fov (camera s), js_div (Num (real w)) (Num (real h)), near (camera s), far (camera s)) \<and>
     fov (camera s') = fov (camera s) \<and> near (camera s') = near (camera s) \<and>
     far (camera s') = far (camera s) \<and> camera_position (camera s') = camera_position (camera s) \<and>
     world s' = world s \<and> balls s' = balls s \<and> gravityValue s' = gravityValue s \<and>
     groundMesh s' = groundMesh s \<and> groundBody s' = groundBody s \<and>
     objects s' = objects s \<and> rigid s' = rigid s \<and>
     s'\<lparr>camera := camera s, renderer_size := renderer_size s, container := container s\<rparr> = s"
  by (simp add: onWindowResize_def updateProjectionMatrix_def Let_def)

theorem resize_sets_aspect_and_viewport_witness:
  "\<exists>s'. dispatch sample_externals (Resize 1024 512) (GravityScene sample_container (Num 9.8)) = Inr s' \<and>
     aspect (camera s') = Num 2 \<and> renderer_size s' = (Num 1024, Num 512) \<and>
     gravity (world s') = Vec3 (Num 0) (Num (- 9.8)) (Num 0) \<and> balls s' = []"
  using resize_sets_aspect_and_viewport [of sample_externals 1024 512 "GravityScene sample_container (Num 9.8)"]
  by (simp add: scene_eval)

lemma loop_body_unchanged:
  assumes "loop_body ext i s = Inr s'"
  shows "next_handle s' = next_handle s \<and> light s' = light s \<and> groundMesh s' = groundMesh s \<and>
    groundBody s' = groundBody s \<and> frames s' = frames s"
  using loop_body_InrD(2) [OF assms]
  by (simp add: remove_ball_def sync_mesh_more_fields split: if_splits)

lemma animate_balls:
  assumes "animate ext delta s = Inr s'"
  shows "balls s' = filter (\<lambda>b. \<not> resting ext (physics_step ext delta s) b) (balls s)"
proof -
  from assms obtain s2 where l: "animate_loop ext (length (balls s)) (physics_step ext delta s) = Inr s2"
    and s': "s' = render s2" by (rule animate_InrD)
  have b: "balls (physics_step ext delta s) = balls s" by (simp add: physics_step_def)
  from animate_loop_balls [OF l] b s' show ?thesis by (simp add: render_def)
qed

lemma animate_rigid:
  assumes "animate ext delta s = Inr s'"
  shows "rigid s' = rigid (physics_step ext delta s) \<and> ballRadius s' = ballRadius s"
proof -
  from assms obtain s2 where l: "animate_loop ext (length (balls s)) (physics_step ext delta s) = Inr s2"
    and s': "s' = render s2" by (rule animate_InrD)
  from animate_loop_frame [OF l] s' show ?thesis by (simp add: render_def physics_step_def)
qed

lemma animate_unchanged:
  assumes "animate ext delta s = Inr s'"
  shows "next_handle s' = next_handle s \<and> light s' = light s \<and> groundMesh s' = groundMesh s \<and>
    groundBody s' = groundBody s"
proof -
  from assms obtain s2 where l: "animate_loop ext (length (balls s)) (physics_step ext delta s) = Inr s2"
    and s': "s' = render s2" by (rule animate_InrD)
  let ?P = "\<lambda>t. next_handle t = next_handle s \<and> light t = light s \<and>
    groundMesh t = groundMesh s \<and> groundBody t = groundBody s"
  have "?P (physics_step ext delta s)" by (simp add: physics_step_def)
  then have "?P s2"
    by (rule animate_loop_invariant [where P = ?P, OF _ _ l]) (simp add: loop_body_unchanged)
  with s' show ?thesis by (simp add: render_def)
qed

lemma none_done_dispatch:
  assumes "none_done s" and "dispatch ext e s = Inr s'"
  shows "none_done s'"
proof (cases e)
  case Click
  with assms show ?thesis by (auto simp: none_done_def addBall_def Let_def)
next
  case (Change v)
  with assms show ?thesis by (auto simp: none_done_def gravityInput_change_def Let_def)
next
  case (Resize w h)
  with assms show ?thesis by (auto simp: none_done_def onWindowResize_def Let_def)
next
  case (AnimationFrame delta)
  with assms animate_balls [of ext delta s s'] show ?thesis
    by (simp add: none_done_def list_all_iff)
qed

lemma none_done_GravityScene: "none_done (GravityScene c g)"
  by (simp add: none_done_def GravityScene_def Let_def onWindowResize_def)

lemma reachable_none_done:
  assumes "run ext es (GravityScene c g) = Inr s"
  shows "none_done s"
  by (rule run_invariant [where P = none_done, OF none_done_GravityScene _ assms])
     (rule none_done_dispatch)

lemma reachable_paired:
  assumes "run ext es (GravityScene c g) = Inr s"
  shows "handles_paired s"
  by (rule handles_paired_run [OF handles_paired_GravityScene assms])

lemma ballRadius_dispatch:
  assumes "ballRadius s = Num 1" and "dispatch ext e s = Inr s'"
  shows "ballRadius s' = Num 1"
proof (cases e)
  case Click
  with assms show ?thesis by (auto simp: addBall_def Let_def)
next
  case (Change v)
  with assms show ?thesis by (auto simp: gravityInput_change_def Let_def)
next
  case (Resize w h)
  with assms show ?thesis by (auto simp: onWindowResize_def Let_def)
next
  case (AnimationFrame delta)
  with assms animate_rigid [of ext delta s s'] show ?thesis by simp
qed

lemma reachable_ballRadius:
  assumes "run ext es (GravityScene c g) = Inr s"
  shows "ballRadius s = Num 1"
proof -
  have "ballRadius (GravityScene c g) = Num 1"
    by (simp add: GravityScene_def Let_def onWindowResize_def)
  then show ?thesis
    by (rule run_invariant [where P = "\<lambda>t. ballRadius t = Num 1", OF _ _ assms])
       (rule ballRadius_dispatch)
qed

lemma resting_active:
  assumes "\<not> done_flag b" and "ballRadius s = Num 1"
  shows "resting ext s b \<longleftrightarrow>
    js_lt (vec3_length ext (body_velocity (rigid s (body b)))) (Num 0.1) \<and>
    js_le (vy (body_position (rigid s (body b)))) (Num 2)"
  using assms by (simp add: resting_def Let_def)

section \<open>The done flag\<close>

text \<open>
  Claim C9. After the constructor and any sequence of events the run has not failed and
  every ball in the list has \<open>done === false\<close>; for such a ball the removal test is the
  velocity and height test alone (with radius 1 the height bound is 2), so the guard on
  the flag decides nothing.
\<close>
theorem active_balls_not_done:
  "\<exists>s. run ext es (GravityScene c g) = Inr s \<and>
     (\<forall>b\<in>set (balls s). \<not> done_flag b \<and>
        (resting ext s b \<longleftrightarrow>
           js_lt (vec3_length ext (body_velocity (rigid s (body b)))) (Num 0.1) \<and>
           js_le (vy (body_position (rigid s (body b)))) (Num 2)))"
proof -
  obtain s where s: "run ext es (GravityScene c g) = Inr s"
    using run_total by blast
  have nd: "\<forall>b\<in>set (balls s). \<not> done_flag b"
    using reachable_none_done [OF s] by (simp add: none_done_def list_all_iff)
  with s resting_active [OF _ reachable_ballRadius [OF s]] show ?thesis by blast
qed

theorem active_balls_not_done_witness:
  "\<exists>s. run sample_externals [Click, Click, AnimationFrame (Num 0)]
        (GravityScene sample_container (Num 9.8)) = Inr s \<and>
     balls s = [\<lparr>mesh = 5, body = 6, done_flag = False\<rparr>] \<and>
     \<not> resting sample_externals s \<lparr>mesh = 5, body = 6, done_flag = False\<rparr>"
  using active_balls_not_done [of sample_externals "[Click, Click, AnimationFrame (Num 0)]"
      sample_container "Num 9.8"]
  by (simp add: scene_eval)

lemma paired_ball_handles:
  assumes "handles_paired s" and "a \<in> set (balls s)"
  shows "mesh a \<in> set (scene s)" and "body a \<in> set (bodies (world s))"
    and "mesh a < next_handle s" and "body a < next_handle s"
proof -
  from assms(1) have sc: "scene s = light s # groundMesh s # map mesh (balls s)"
    and bo: "bodies (world s) = groundBody s # map body (balls s)"
    and a1: "list_all (\<lambda>h. h < next_handle s) (scene s)"
    and a2: "list_all (\<lambda>h. h < next_handle s) (bodies (world s))"
    unfolding handles_paired_def by blast+
  show m: "mesh a \<in> set (scene s)" using assms(2) sc by simp
  show b: "body a \<in> set (bodies (world s))" using assms(2) bo by simp
  show "mesh a < next_handle s" using a1 m by (simp add: list_all_iff)
  show "body a < next_handle s" using a2 b by (simp add: list_all_iff)
qed

lemma paired_distinct:
  assumes "handles_paired s"
  shows "distinct (map mesh (balls s))" and "distinct (map body (balls s))"
    and "light s \<notin> mesh ` set (balls s)" and "groundMesh s \<notin> mesh ` set (balls s)"
    and "groundBody s \<notin> body ` set (balls s)"
proof -
  from assms have sc: "scene s = light s # groundMesh s # map mesh (balls s)"
    and bo: "bodies (world s) = groundBody s # map body (balls s)"
    and d1: "distinct (scene s)" and d2: "distinct (bodies (world s))"
    unfolding handles_paired_def by blast+
  from d1 sc show "distinct (map mesh (balls s))" "light s \<notin> mesh ` set (balls s)"
    "groundMesh s \<notin> mesh ` set (balls s)" by auto
  from d2 bo show "distinct (map body (balls s))" "groundBody s \<notin> body ` set (balls s)" by auto
qed

lemma addBall_fresh:
  assumes "handles_paired s"
  shows "next_handle s \<notin> set (scene s)" and "Suc (next_handle s) \<notin> set (bodies (world s))"
    and "scene (addBall s) = scene s @ [next_handle s]"
    and "bodies (world (addBall s)) = bodies (world s) @ [Suc (next_handle s)]"
proof -
  from assms have a1: "list_all (\<lambda>h. h < next_handle s) (scene s)"
    and a2: "list_all (\<lambda>h. h < next_handle s) (bodies (world s))"
    unfolding handles_paired_def by blast+
  show n1: "next_handle s \<notin> set (scene s)" using a1 by (auto simp: list_all_iff)
  show n2: "Suc (next_handle s) \<notin> set (bodies (world s))" using a2 by (auto simp: list_all_iff)
  show "scene (addBall s) = scene s @ [next_handle s]"
    using n1 by (simp add: addBall_def Let_def scene_add_def remove1_idem)
  show "bodies (world (addBall s)) = bodies (world s) @ [Suc (next_handle s)]"
    using n2 by (simp add: addBall_def Let_def addBody_def)
qed

section \<open>Adding a ball\<close>

text \<open>
  Claim C5. In every state reached from the constructor a click succeeds and appends
  exactly one ball, with \<open>done\<close> false, whose mesh and body are new handles, used nowhere
  in the scene, the world or the list before; the mesh is pushed on the scene and the
  body on the world; the body lies at \<open>(0, 8, 0)\<close> with mass 5, a sphere of radius 1,
  linear damping 0.31 and the shared ball material, the mesh has a sphere geometry of
  radius 1; and every ball already in the list stays in it with its mesh and body
  untouched.
\<close>
theorem addBall_adds_one_ball:
  assumes "run ext es (GravityScene c g) = Inr s"
  shows "dispatch ext Click s = Inr (addBall s) \<and>
    balls (addBall s) =
      balls s @ [\<lparr>mesh = next_handle s, body = Suc (next_handle s), done_flag = False\<rparr>] \<and>
    length (balls (addBall s)) = length (balls s) + 1 \<and>
    next_handle s \<notin> set (scene s) \<and> Suc (next_handle s) \<notin> set (bodies (world s)) \<and>
    scene (addBall s) = scene s @ [next_handle s] \<and>
    bodies (world (addBall s)) = bodies (world s) @ [Suc (next_handle s)] \<and>
    rigid (addBall s) (Suc (next_handle s)) =
      \<lparr>body_position = Vec3 (Num 0) (Num 8) (Num 0),
       body_quaternion = Quat (Num 0) (Num 0) (Num 0) (Num 1),
       body_velocity = Vec3 (Num 0) (Num 0) (Num 0),
       mass = Num 5, body_shape = Sphere (Num 1), body_material = ballMaterial s,
       linearDamping = Num 0.31\<rparr> \<and>
    obj_geometry (objects (addBall s) (next_handle s)) = SphereGeometry (Num 1) 32 32 \<and>
    (\<forall>a\<in>set (balls s). a \<in> set (balls (addBall s)) \<and>
       mesh a \<noteq> next_handle s \<and> body a \<noteq> Suc (next_handle s) \<and>
       objects (addBall s) (mesh a) = objects s (mesh a) \<and>
       rigid (addBall s) (body a) = rigid s (body a))"
proof -
  have p: "handles_paired s" by (rule reachable_paired [OF assms])
  have r: "ballRadius s = Num 1" by (rule reachable_ballRadius [OF assms])
  have b: "balls (addBall s) =
      balls s @ [\<lparr>mesh = next_handle s, body = Suc (next_handle s), done_flag = False\<rparr>]"
    by (simp add: addBall_def Let_def)
  have rg: "rigid (addBall s) (Suc (next_handle s)) =
      \<lparr>body_position = Vec3 (Num 0) (Num 8) (Num 0),
       body_quaternion = Quat (Num 0) (Num 0) (Num 0) (Num 1),
       body_velocity = Vec3 (Num 0) (Num 0) (Num 0),
       mass = Num 5, body_shape = Sphere (Num 1), body_material = ballMaterial s,
       linearDamping = Num 0.31\<rparr>"
    using r by (simp add: addBall_def Let_def new_body_def)
  have ob: "obj_geometry (objects (addBall s) (next_handle s)) = SphereGeometry (Num 1) 32 32"
    using r by (simp add: addBall_def Let_def new_object3d_def)
  have old: "\<forall>a\<in>set (balls s). a \<in> set (balls (addBall s)) \<and>
       mesh a \<noteq> next_handle s \<and> body a \<noteq> Suc (next_handle s) \<and>
       objects (addBall s) (mesh a) = objects s (mesh a) \<and>
       rigid (addBall s) (body a) = rigid s (body a)"
  proof
    fix a assume a: "a \<in> set (balls s)"
    from paired_ball_handles(3,4) [OF p a]
    have "mesh a \<noteq> next_handle s" "body a \<noteq> Suc (next_handle s)" by simp_all
    then show "a \<in> set (balls (addBall s)) \<and>
       mesh a \<noteq> next_handle s \<and> body a \<noteq> Suc (next_handle s) \<and>
       objects (addBall s) (mesh a) = objects s (mesh a) \<and>
       rigid (addBall s) (body a) = rigid s (body a)"
      using a b by (simp add: addBall_def Let_def)
  qed
  from b rg ob old addBall_fresh [OF p] show ?thesis by simp
qed

theorem addBall_adds_one_ball_witness:
  "run sample_externals [Click] (GravityScene sample_container (Num 9.8)) =
     Inr (addBall (GravityScene sample_container (Num 9.8))) \<and>
   balls (addBall (addBall (GravityScene sample_container (Num 9.8)))) =
     [\<lparr>mesh = 3, body = 4, done_flag = False\<rparr>, \<lparr>mesh = 5, body = 6, done_flag = False\<rparr>] \<and>
   scene (addBall (addBall (GravityScene sample_container (Num 9.8)))) = [0, 1, 3, 5] \<and>
   bodies (world (addBall (addBall (GravityScene sample_container (Num 9.8))))) = [2, 4, 6] \<and>
   body_position (rigid (addBall (addBall (GravityScene sample_container (Num 9.8)))) 6) =
     Vec3 (Num 0) (Num 8) (Num 0)"
proof -
  have r: "run sample_externals [Click] (GravityScene sample_container (Num 9.8)) =
     Inr (addBall (GravityScene sample_container (Num 9.8)))" by simp
  have n: "next_handle (addBall (GravityScene sample_container (Num 9.8))) = 5"
    by (simp add: scene_eval)
  have b: "balls (addBall (GravityScene sample_container (Num 9.8))) =
      [\<lparr>mesh = 3, body = 4, done_flag = False\<rparr>]"
    by (simp add: scene_eval)
  have s: "scene (addBall (GravityScene sample_container (Num 9.8))) = [0, 1, 3]"
    by (simp add: scene_eval)
  have w: "bodies (world (addBall (GravityScene sample_container (Num 9.8)))) = [2, 4]"
    by (simp add: scene_eval)
  from addBall_adds_one_ball [OF r] r n b s w show ?thesis by simp
qed

lemma later_state_refl: "later_state s s"
  by (simp add: later_state_def list_all_iff)

lemma later_stateD:
  assumes "later_state s s'"
  shows "next_handle s \<le> next_handle s'"
    and "light s' = light s" and "groundMesh s' = groundMesh s" and "groundBody s' = groundBody s"
    and "b \<in> set (balls s') \<Longrightarrow>
         b \<in> set (balls s) \<or> next_handle s \<le> mesh b \<and> next_handle s \<le> body b"
  using assms unfolding later_state_def list_all_iff by blast+

lemma later_state_trans:
  assumes "later_state s s1" and "later_state s1 s2"
  shows "later_state s s2"
proof -
  have n: "next_handle s \<le> next_handle s1" "next_handle s1 \<le> next_handle s2"
    using later_stateD(1) [OF assms(1)] later_stateD(1) [OF assms(2)] by simp_all
  have b: "b \<in> set (balls s) \<or> next_handle s \<le> mesh b \<and> next_handle s \<le> body b"
    if "b \<in> set (balls s2)" for b
  proof -
    from later_stateD(5) [OF assms(2) that]
    show ?thesis
    proof
      assume "b \<in> set (balls s1)"
      then show ?thesis by (rule later_stateD(5) [OF assms(1)])
    next
      assume "next_handle s1 \<le> mesh b \<and> next_handle s1 \<le> body b"
      with n show ?thesis by simp
    qed
  qed
  show ?thesis
    unfolding later_state_def list_all_iff
    using n b later_stateD(2,3,4) [OF assms(1)] later_stateD(2,3,4) [OF assms(2)]
    by simp
qed

lemma later_state_addBall: "later_state s (addBall s)"
proof -
  have "balls (addBall s) =
      balls s @ [\<lparr>mesh = next_handle s, body = Suc (next_handle s), done_flag = False\<rparr>]"
    by (simp add: addBall_def Let_def)
  moreover have "next_handle (addBall s) = Suc (Suc (next_handle s))"
    "light (addBall s) = light s" "groundMesh (addBall s) = groundMesh s"
    "groundBody (addBall s) = groundBody s"
    by (simp_all add: addBall_def Let_def)
  ultimately show ?thesis by (simp add: later_state_def list_all_iff)
qed

lemma later_state_same_balls:
  assumes "balls s' = balls s" and "next_handle s' = next_handle s" and "light s' = light s"
    and "groundMesh s' = groundMesh s" and "groundBody s' = groundBody s"
  shows "later_state s s'"
  using assms by (simp add: later_state_def list_all_iff)

lemma dispatch_later:
  assumes "dispatch ext e s = Inr s'"
  shows "later_state s s'"
proof (cases e)
  case Click
  with assms show ?thesis by (auto simp: later_state_addBall)
next
  case (Change v)
  with assms have "s' = (if gravityInput s then gravityInput_change (parseFloat ext) v s else s)"
    by auto
  then show ?thesis
    by (intro later_state_same_balls) (simp_all add: gravityInput_change_def Let_def)
next
  case (Resize w h)
  with assms have "s' = onWindowResize (s\<lparr>container := (container s)\<lparr>clientWidth := w, clientHeight := h\<rparr>\<rparr>)"
    by auto
  then show ?thesis
    by (intro later_state_same_balls) (simp_all add: onWindowResize_def Let_def)
next
  case (AnimationFrame delta)
  with assms animate_balls [of ext delta s s'] animate_unchanged [of ext delta s s']
  show ?thesis by (simp add: later_state_def list_all_iff)
qed

lemma distinct_count_list_one: "distinct xs \<Longrightarrow> x \<in> set xs \<Longrightarrow> count_list xs x = 1"
  by (induction xs) auto

lemma run_later:
  "run ext es s = Inr s' \<Longrightarrow> later_state s s'"
proof (induction es arbitrary: s)
  case Nil
  then show ?case by (simp add: later_state_refl)
next
  case (Cons e es)
  from Cons.prems obtain s1 where s1: "dispatch ext e s = Inr s1" and r: "run ext es s1 = Inr s'"
    by (rule run_Cons_InrD)
  from later_state_trans [OF dispatch_later [OF s1] Cons.IH [OF r]] show ?case .
qed

section \<open>Handles are added and removed together\<close>

text \<open>
  Claim C2. After the constructor and any sequence of clicks, gravity changes, resizes and
  animation frames, the run has not failed; the mesh of every ball in the list occurs
  exactly once among the scene's children and its body exactly once among the world's
  bodies; no two balls share a mesh or a body; every child of the scene is the light, the
  ground mesh or the mesh of a ball in the list, and every body of the world is the ground
  body or the body of a ball in the list; and a ball that has left the list never comes
  back: from then on it, its mesh and its body stay out of the list, the scene and the
  world.
\<close>
theorem handles_added_and_removed_together:
  "\<exists>s. run ext es (GravityScene c g) = Inr s \<and>
     (\<forall>b\<in>set (balls s).
        count_list (scene s) (mesh b) = 1 \<and> count_list (bodies (world s)) (body b) = 1) \<and>
     (\<forall>h\<in>set (scene s). h = light s \<or> h = groundMesh s \<or> h \<in> mesh ` set (balls s)) \<and>
     (\<forall>h\<in>set (bodies (world s)). h = groundBody s \<or> h \<in> body ` set (balls s)) \<and>
     distinct (map mesh (balls s)) \<and> distinct (map body (balls s)) \<and>
     light s \<notin> mesh ` set (balls s) \<and> groundMesh s \<notin> mesh ` set (balls s) \<and>
     groundBody s \<notin> body ` set (balls s) \<and>
     (\<forall>b\<in>set (balls s). \<forall>es1 s1 es2 s2.
        run ext es1 s = Inr s1 \<longrightarrow> b \<notin> set (balls s1) \<longrightarrow> run ext es2 s1 = Inr s2 \<longrightarrow>
        b \<notin> set (balls s2) \<and> mesh b \<notin> set (scene s2) \<and> body b \<notin> set (bodies (world s2)))"
proof -
  obtain s where s: "run ext es (GravityScene c g) = Inr s"
    using run_total by blast
  have p: "handles_paired s" by (rule reachable_paired [OF s])
  from p have sc: "scene s = light s # groundMesh s # map mesh (balls s)"
    and bo: "bodies (world s) = groundBody s # map body (balls s)"
    and d1: "distinct (scene s)" and d2: "distinct (bodies (world s))"
    unfolding handles_paired_def by blast+
  have one: "\<forall>b\<in>set (balls s).
        count_list (scene s) (mesh b) = 1 \<and> count_list (bodies (world s)) (body b) = 1"
    using d1 d2 paired_ball_handles(1,2) [OF p] by (simp add: distinct_count_list_one)
  have o1: "\<forall>h\<in>set (scene s). h = light s \<or> h = groundMesh s \<or> h \<in> mesh ` set (balls s)"
    using sc by auto
  have o2: "\<forall>h\<in>set (bodies (world s)). h = groundBody s \<or> h \<in> body ` set (balls s)"
    using bo by auto
  have never: "\<forall>b\<in>set (balls s). \<forall>es1 s1 es2 s2.
        run ext es1 s = Inr s1 \<longrightarrow> b \<notin> set (balls s1) \<longrightarrow> run ext es2 s1 = Inr s2 \<longrightarrow>
        b \<notin> set (balls s2) \<and> mesh b \<notin> set (scene s2) \<and> body b \<notin> set (bodies (world s2))"
  proof (intro ballI allI impI)
    fix b es1 s1 es2 s2
    assume b: "b \<in> set (balls s)" and r1: "run ext es1 s = Inr s1"
      and out: "b \<notin> set (balls s1)" and r2: "run ext es2 s1 = Inr s2"
    have l1: "later_state s s1" by (rule run_later [OF r1])
    have l2: "later_state s1 s2" by (rule run_later [OF r2])
    have lt: "mesh b < next_handle s" "body b < next_handle s"
      using paired_ball_handles(3,4) [OF p b] by simp_all
    have le: "next_handle s \<le> next_handle s1" by (rule later_stateD(1) [OF l1])
    have p1: "handles_paired s1" by (rule handles_paired_run [OF p r1])
    have p2: "handles_paired s2" by (rule handles_paired_run [OF p1 r2])
    have old: "a \<in> set (balls s) \<and> a \<in> set (balls s1)"
      if a: "a \<in> set (balls s2)" and h: "mesh a = mesh b \<or> body a = body b" for a
    proof -
      have "a \<in> set (balls s1) \<or> next_handle s1 \<le> mesh a \<and> next_handle s1 \<le> body a"
        by (rule later_stateD(5) [OF l2 a])
      with h lt le have a1: "a \<in> set (balls s1)" by auto
      have "a \<in> set (balls s) \<or> next_handle s \<le> mesh a \<and> next_handle s \<le> body a"
        by (rule later_stateD(5) [OF l1 a1])
      with h lt a1 show ?thesis by auto
    qed
    have same: "a = b" if a: "a \<in> set (balls s)" and h: "mesh a = mesh b \<or> body a = body b" for a
      using paired_distinct(1,2) [OF p] a b h by (auto simp: distinct_map inj_on_def)
    have no: "a \<notin> set (balls s2)" if h: "mesh a = mesh b \<or> body a = body b" for a
      using old [of a] same [of a] out h by blast
    from p2 have sc2: "scene s2 = light s2 # groundMesh s2 # map mesh (balls s2)"
      and bo2: "bodies (world s2) = groundBody s2 # map body (balls s2)"
      unfolding handles_paired_def by blast+
    have g: "light s2 = light s" "groundMesh s2 = groundMesh s" "groundBody s2 = groundBody s"
      using later_stateD(2,3,4) [OF later_state_trans [OF l1 l2]] by simp_all
    have nb1: "mesh b \<noteq> light s" using paired_distinct(3) [OF p] b by (metis imageI)
    have nb2: "mesh b \<noteq> groundMesh s" using paired_distinct(4) [OF p] b by (metis imageI)
    have nb3: "body b \<noteq> groundBody s" using paired_distinct(5) [OF p] b by (metis imageI)
    note nb = nb1 nb2 nb3
    have "b \<notin> set (balls s2)" using no [of b] by simp
    moreover have "mesh b \<notin> set (scene s2)" using sc2 g nb no by auto
    moreover have "body b \<notin> set (bodies (world s2))" using bo2 g nb no by auto
    ultimately show "b \<notin> set (balls s2) \<and> mesh b \<notin> set (scene s2) \<and> body b \<notin> set (bodies (world s2))"
      by simp
  qed
  show ?thesis
    by (intro exI [of _ s] conjI) (fact s one o1 o2 paired_distinct [OF p] never)+
qed

theorem handles_added_and_removed_together_witness:
  "\<exists>s. run sample_externals [Click, Click, AnimationFrame (Num 0)]
        (GravityScene sample_container (Num 9.8)) = Inr s \<and>
     balls s = [\<lparr>mesh = 5, body = 6, done_flag = False\<rparr>] \<and>
     scene s = [0, 1, 5] \<and> bodies (world s) = [2, 6] \<and>
     count_list (scene s) 5 = 1 \<and> count_list (bodies (world s)) 6 = 1 \<and>
     count_list (scene s) 3 = 0 \<and> count_list (bodies (world s)) 4 = 0"
  using handles_added_and_removed_together [of sample_externals
      "[Click, Click, AnimationFrame (Num 0)]" sample_container "Num 9.8"]
  by (simp add: scene_eval)

lemma synced_cong:
  "objects s' = objects s \<Longrightarrow> rigid s' = rigid s \<Longrightarrow> synced s' b = synced s b"
  by (simp add: synced_def)

lemma synced_sync_mesh_self: "synced (sync_mesh b s) b"
  by (simp add: synced_def sync_mesh_def)

lemma synced_sync_mesh_other:
  "mesh c \<noteq> mesh b \<Longrightarrow> synced (sync_mesh c s) b = synced s b"
  by (simp add: synced_def sync_mesh_def)

lemma fold_synced_keep:
  "mesh b \<notin> mesh ` set xs \<Longrightarrow> synced s b \<Longrightarrow> synced (fold sync_mesh xs s) b"
proof (induction xs arbitrary: s)
  case Nil
  then show ?case by simp
next
  case (Cons x xs)
  from Cons.prems have "mesh x \<noteq> mesh b" and rest: "mesh b \<notin> mesh ` set xs" by auto
  with Cons.prems(2) have "synced (sync_mesh x s) b" by (simp add: synced_sync_mesh_other)
  from Cons.IH [OF rest this] show ?case by simp
qed

lemma fold_synced:
  "distinct (map mesh xs) \<Longrightarrow> b \<in> set xs \<Longrightarrow> synced (fold sync_mesh xs s) b"
proof (induction xs arbitrary: s)
  case Nil
  then show ?case by simp
next
  case (Cons x xs)
  from Cons.prems(1) have nx: "mesh x \<notin> mesh ` set xs" and d: "distinct (map mesh xs)" by auto
  show ?case
  proof (cases "b = x")
    case True
    with fold_synced_keep [OF nx synced_sync_mesh_self [of x s]] show ?thesis by simp
  next
    case False
    with Cons.prems(2) have "b \<in> set xs" by simp
    from Cons.IH [OF d this, of "sync_mesh x s"] show ?thesis by simp
  qed
qed

lemma fold_sync_rigid: "rigid (fold sync_mesh xs s) = rigid s"
  by (induction xs arbitrary: s) (simp_all add: sync_mesh_fields)

lemma animate_frames:
  assumes "animate ext delta s = Inr s'"
  shows "frames s' = frames s @
    [(map (\<lambda>h. (h, obj_position (objects s' h), obj_quaternion (objects s' h))) (scene s'),
      projection (camera s'))]"
proof -
  from assms obtain s2 where l: "animate_loop ext (length (balls s)) (physics_step ext delta s) = Inr s2"
    and s': "s' = render s2" by (rule animate_InrD)
  let ?P = "\<lambda>t. frames t = frames s"
  have "?P (physics_step ext delta s)" by (simp add: physics_step_def)
  then have "?P s2"
    by (rule animate_loop_invariant [where P = ?P, OF _ _ l]) (simp add: loop_body_unchanged)
  with s' show ?thesis by (simp add: render_def)
qed

lemma animate_synced:
  assumes "distinct (map mesh (balls s))" and "animate ext delta s = Inr s'"
    and "b \<in> set (balls s)"
  shows "synced s' b"
proof -
  let ?s1 = "physics_step ext delta s"
  from assms(2) obtain s2 where l: "animate_loop ext (length (balls s)) ?s1 = Inr s2"
    and s': "s' = render s2" by (rule animate_InrD)
  have b1: "balls ?s1 = balls s" by (simp add: physics_step_def)
  have o: "objects s2 = objects (fold sync_mesh (rev (balls s)) ?s1)"
    using animate_loop_objects [OF l] b1 by simp
  have r: "rigid s2 = rigid (fold sync_mesh (rev (balls s)) ?s1)"
    using animate_loop_frame [OF l] by (simp add: fold_sync_rigid)
  have "distinct (map mesh (rev (balls s)))"
    using assms(1) by (simp add: rev_map [symmetric])
  from fold_synced [OF this, of b ?s1] assms(3)
  have "synced (fold sync_mesh (rev (balls s)) ?s1) b" by simp
  then have "synced s2 b" using synced_cong [OF o r] by simp
  then show ?thesis using s' by (simp add: synced_def render_def)
qed

lemma set_animate_balls:
  assumes "animate ext delta s = Inr s'"
  shows "set (balls s') \<subseteq> set (balls s)"
  using animate_balls [OF assms] by auto

lemma fold_sync_other:
  "h \<notin> mesh ` set xs \<Longrightarrow> objects (fold sync_mesh xs s) h = objects s h"
  by (induction xs arbitrary: s) (simp_all add: sync_mesh_def)

lemma animate_loop_synced:
  assumes "animate_loop ext (length (balls s)) s = Inr s'"
    and "distinct (map mesh (balls s))" and "b \<in> set (balls s)"
  shows "synced s' b"
proof -
  have o: "objects s' = objects (fold sync_mesh (rev (balls s)) s)"
    using animate_loop_objects [OF assms(1)] by simp
  have r: "rigid s' = rigid (fold sync_mesh (rev (balls s)) s)"
    using animate_loop_frame [OF assms(1)] by (simp add: fold_sync_rigid)
  have "distinct (map mesh (rev (balls s)))"
    using assms(2) by (simp add: rev_map [symmetric])
  from fold_synced [OF this, of b s] assms(3)
  have "synced (fold sync_mesh (rev (balls s)) s) b" by simp
  then show ?thesis using synced_cong [OF o r] by simp
qed

section \<open>Removal while iterating\<close>

text \<open>
  Claim C6. From any state, the back-to-front loop with its in-place splice ends without a
  fault; the ball list after it is the list before it without the balls that pass the
  removal test, in the same order; the iterations read the balls of the starting list once
  each, last to first, and each iteration copies the body's transform to the mesh of the
  ball it reads. So, the bodies being left alone, when no two balls share a mesh (as in
  every state the program reaches) the mesh of every ball of the starting list, kept or
  removed, ends with the position and quaternion of its body, and the objects that are no
  ball's mesh are as before. The same list result holds for the whole tick, with the test
  taken after the physics step.
\<close>

theorem animate_loop_safe:
  "\<exists>s'. animate_loop ext (length (balls s)) s = Inr s' \<and>
     balls s' = filter (\<lambda>b. \<not> resting ext s b) (balls s) \<and>
     animate_visits ext (length (balls s)) s = rev (balls s) \<and>
     objects s' = objects (fold sync_mesh (rev (balls s)) s) \<and>
     rigid s' = rigid s \<and>
     (distinct (map mesh (balls s)) \<longrightarrow>
        (\<forall>b\<in>set (balls s).
           obj_position (objects s' (mesh b)) = body_position (rigid s (body b)) \<and>
           obj_quaternion (objects s' (mesh b)) = body_quaternion (rigid s (body b)))) \<and>
     (\<forall>h. h \<notin> mesh ` set (balls s) \<longrightarrow> objects s' h = objects s h) \<and>
     (\<exists>s''. animate ext delta s = Inr s'' \<and>
        balls s'' = filter (\<lambda>b. \<not> resting ext (physics_step ext delta s) b) (balls s))"
proof -
  obtain s' where l: "animate_loop ext (length (balls s)) s = Inr s'"
    using animate_loop_total [of "length (balls s)" s ext] by auto
  obtain s'' where a: "animate ext delta s = Inr s''"
    using animate_total by blast
  have bs: "balls s' = filter (\<lambda>b. \<not> resting ext s b) (balls s)"
    using animate_loop_balls [OF l] by simp
  have vs: "animate_visits ext (length (balls s)) s = rev (balls s)"
    using animate_visits_rev [of "length (balls s)" s ext] by simp
  have o: "objects s' = objects (fold sync_mesh (rev (balls s)) s)"
    using animate_loop_objects [OF l] by simp
  have r: "rigid s' = rigid s"
    using animate_loop_frame [OF l] by simp
  have sy: "distinct (map mesh (balls s)) \<longrightarrow>
        (\<forall>b\<in>set (balls s).
           obj_position (objects s' (mesh b)) = body_position (rigid s (body b)) \<and>
           obj_quaternion (objects s' (mesh b)) = body_quaternion (rigid s (body b)))"
  proof (intro impI ballI)
    fix b assume d: "distinct (map mesh (balls s))" and b: "b \<in> set (balls s)"
    from animate_loop_synced [OF l d b] r
    show "obj_position (objects s' (mesh b)) = body_position (rigid s (body b)) \<and>
          obj_quaternion (objects s' (mesh b)) = body_quaternion (rigid s (body b))"
      by (simp add: synced_def)
  qed
  have ot: "\<forall>h. h \<notin> mesh ` set (balls s) \<longrightarrow> objects s' h = objects s h"
    using o fold_sync_other [of _ "rev (balls s)" s] by simp
  have an: "\<exists>s''. animate ext delta s = Inr s'' \<and>
        balls s'' = filter (\<lambda>b. \<not> resting ext (physics_step ext delta s) b) (balls s)"
    using a animate_balls [OF a] by simp
  show ?thesis
    by (rule exI [of _ s']) (intro conjI l bs vs o r sy ot an)
qed

theorem animate_loop_safe_witness:
  "\<exists>s'. animate_loop sample_externals (length (balls (physics_step sample_externals (Num 0)
            (addBall (addBall (GravityScene sample_container (Num 9.8)))))))
          (physics_step sample_externals (Num 0)
            (addBall (addBall (GravityScene sample_container (Num 9.8))))) = Inr s' \<and>
     balls (addBall (addBall (GravityScene sample_container (Num 9.8)))) =
       [\<lparr>mesh = 3, body = 4, done_flag = False\<rparr>, \<lparr>mesh = 5, body = 6, done_flag = False\<rparr>] \<and>
     balls s' = [\<lparr>mesh = 5, body = 6, done_flag = False\<rparr>] \<and>
     animate_visits sample_externals (length (balls (physics_step sample_externals (Num 0)
            (addBall (addBall (GravityScene sample_container (Num 9.8)))))))
          (physics_step sample_externals (Num 0)
            (addBall (addBall (GravityScene sample_container (Num 9.8))))) =
       [\<lparr>mesh = 5, body = 6, done_flag = False\<rparr>, \<lparr>mesh = 3, body = 4, done_flag = False\<rparr>] \<and>
     obj_position (objects (addBall (addBall (GravityScene sample_container (Num 9.8)))) 3) =
       Vec3 (Num 0) (Num 0) (Num 0) \<and>
     obj_position (objects s' 3) = Vec3 (Num 0) (Num 2) (Num 0) \<and>
     obj_quaternion (objects s' 3) = Quat (Num 0) (Num 0) (Num 1) (Num 0) \<and>
     obj_position (objects s' 5) = Vec3 (Num 0) (Num 8) (Num 0) \<and>
     obj_quaternion (objects s' 5) = Quat (Num 0) (Num 0) (Num 0) (Num 1)"
  using animate_loop_safe [of sample_externals "physics_step sample_externals (Num 0)
            (addBall (addBall (GravityScene sample_container (Num 9.8))))" "Num 0"]
  by (simp add: scene_eval)

section \<open>Meshes follow bodies\<close>

text \<open>
  Claim C7. After a tick in a state reached from the constructor, the mesh of every ball
  still in the list has the position and quaternion of its body as the physics step left
  them. The copy comes before the removal test: the mesh of a ball removed in this tick
  was synced too. It comes before the frame is drawn: the tick appends one frame, drawn
  from the scene and the mesh store as they are after the loop, so each remaining ball's
  mesh appears in it at its body's transform.
\<close>
theorem meshes_follow_bodies:
  assumes "run ext es (GravityScene c g) = Inr s"
  shows "\<exists>s'. animate ext delta s = Inr s' \<and>
    rigid s' = world_step ext (js_div (Num 1) (Num 60)) delta (world s) (rigid s) \<and>
    (\<forall>b\<in>set (balls s'). synced s' b) \<and>
    (\<forall>b\<in>set (balls s). synced s' b) \<and>
    frames s' = frames s @
      [(map (\<lambda>h. (h, obj_position (objects s' h), obj_quaternion (objects s' h))) (scene s'),
        projection (camera s'))] \<and>
    (\<forall>b\<in>set (balls s').
       (mesh b, body_position (rigid s' (body b)), body_quaternion (rigid s' (body b)))
         \<in> set (fst (last (frames s'))))"
proof -
  obtain s' where a: "animate ext delta s = Inr s'"
    using animate_total by blast
  have p: "handles_paired s" by (rule reachable_paired [OF assms])
  have p': "handles_paired s'" by (rule handles_paired_animate [OF p a])
  have r: "rigid s' = world_step ext (js_div (Num 1) (Num 60)) delta (world s) (rigid s)"
    using animate_rigid [OF a] by (simp add: physics_step_def)
  have all: "\<forall>b\<in>set (balls s). synced s' b"
    using animate_synced [OF paired_distinct(1) [OF p] a] by blast
  have rest: "\<forall>b\<in>set (balls s'). synced s' b"
    using all set_animate_balls [OF a] by blast
  have f: "frames s' = frames s @
      [(map (\<lambda>h. (h, obj_position (objects s' h), obj_quaternion (objects s' h))) (scene s'),
        projection (camera s'))]"
    by (rule animate_frames [OF a])
  have drawn: "\<forall>b\<in>set (balls s').
       (mesh b, body_position (rigid s' (body b)), body_quaternion (rigid s' (body b)))
         \<in> set (fst (last (frames s')))"
  proof
    fix b assume b: "b \<in> set (balls s')"
    have m: "mesh b \<in> set (scene s')" by (rule paired_ball_handles(1) [OF p' b])
    have "synced s' b" using rest b by blast
    then have "(mesh b, body_position (rigid s' (body b)), body_quaternion (rigid s' (body b))) =
        (\<lambda>h. (h, obj_position (objects s' h), obj_quaternion (objects s' h))) (mesh b)"
      by (simp add: synced_def)
    with m have "(mesh b, body_position (rigid s' (body b)), body_quaternion (rigid s' (body b)))
        \<in> (\<lambda>h. (h, obj_position (objects s' h), obj_quaternion (objects s' h))) ` set (scene s')"
      by (rule_tac image_eqI)
    then show "(mesh b, body_position (rigid s' (body b)), body_quaternion (rigid s' (body b)))
         \<in> set (fst (last (frames s')))"
      by (subst f) simp
  qed
  show ?thesis
    by (intro exI [of _ s'] conjI) (fact a r rest all f drawn)+
qed

theorem meshes_follow_bodies_witness:
  "\<exists>s'. animate sample_externals (Num 0) (addBall (addBall (GravityScene sample_container (Num 9.8)))) = Inr s' \<and>
     balls s' = [\<lparr>mesh = 5, body = 6, done_flag = False\<rparr>] \<and>
     obj_position (objects s' 5) = Vec3 (Num 0) (Num 8) (Num 0) \<and>
     obj_position (objects s' 3) = Vec3 (Num 0) (Num 2) (Num 0) \<and>
     map fst (fst (last (frames s'))) = [0, 1, 5]"
proof -
  have r: "run sample_externals [Click, Click] (GravityScene sample_container (Num 9.8)) =
      Inr (addBall (addBall (GravityScene sample_container (Num 9.8))))"
    by simp
  from meshes_follow_bodies [OF r, of "Num 0"] show ?thesis
    by (simp add: scene_eval)
qed

section \<open>Settled balls leave within the tick\<close>

text \<open>
  Claim C1. In a state reached from the constructor, take a tick and a ball of the list.
  The tick returns, and the bodies after it are the ones the physics step returned. If the
  magnitude of the ball's velocity after that step, as the library's \<open>length()\<close> computes
  it, is below 0.1 and its height is at most 2 (radius 1 plus ground height 1), then after
  the tick the ball is not in the list, its mesh is not in the scene and its body is not
  in the world; otherwise all three are still there.
\<close>
theorem settled_ball_removed_in_same_tick:
  assumes "run ext es (GravityScene c g) = Inr s" and "b \<in> set (balls s)"
  shows "\<exists>s'. animate ext delta s = Inr s' \<and>
    rigid s' = world_step ext (js_div (Num 1) (Num 60)) delta (world s) (rigid s) \<and>
    (if js_lt (vec3_length ext (body_velocity (rigid s' (body b)))) (Num 0.1) \<and>
        js_le (vy (body_position (rigid s' (body b)))) (Num 2)
     then b \<notin> set (balls s') \<and> mesh b \<notin> set (scene s') \<and> body b \<notin> set (bodies (world s'))
     else b \<in> set (balls s') \<and> mesh b \<in> set (scene s') \<and> body b \<in> set (bodies (world s')))"
proof -
  let ?s1 = "physics_step ext delta s"
  obtain s' where a: "animate ext delta s = Inr s'"
    using animate_total by blast
  have p: "handles_paired s" by (rule reachable_paired [OF assms(1)])
  have p': "handles_paired s'" by (rule handles_paired_animate [OF p a])
  have nd: "\<not> done_flag b"
    using reachable_none_done [OF assms(1)] assms(2) by (simp add: none_done_def list_all_iff)
  have rad: "ballRadius ?s1 = Num 1"
    using reachable_ballRadius [OF assms(1)] by (simp add: physics_step_def)
  have rg: "rigid s' = rigid ?s1" using animate_rigid [OF a] by simp
  have r: "rigid s' = world_step ext (js_div (Num 1) (Num 60)) delta (world s) (rigid s)"
    using rg by (simp add: physics_step_def)
  have test: "resting ext ?s1 b \<longleftrightarrow>
      js_lt (vec3_length ext (body_velocity (rigid s' (body b)))) (Num 0.1) \<and>
      js_le (vy (body_position (rigid s' (body b)))) (Num 2)"
    using resting_active [OF nd rad] rg by simp
  have bs: "balls s' = filter (\<lambda>b. \<not> resting ext ?s1 b) (balls s)"
    by (rule animate_balls [OF a])
  have g: "light s' = light s" "groundMesh s' = groundMesh s" "groundBody s' = groundBody s"
    using animate_unchanged [OF a] by simp_all
  from p' have sc: "scene s' = light s' # groundMesh s' # map mesh (balls s')"
    and bo: "bodies (world s') = groundBody s' # map body (balls s')"
    unfolding handles_paired_def by blast+
  have nb1: "mesh b \<noteq> light s" using paired_distinct(3) [OF p] assms(2) by (metis imageI)
  have nb2: "mesh b \<noteq> groundMesh s" using paired_distinct(4) [OF p] assms(2) by (metis imageI)
  have nb3: "body b \<noteq> groundBody s" using paired_distinct(5) [OF p] assms(2) by (metis imageI)
  have same: "a = b" if "a \<in> set (balls s)" and "mesh a = mesh b \<or> body a = body b" for a
    using paired_distinct(1,2) [OF p] that assms(2) by (auto simp: distinct_map inj_on_def)
  have gone: "b \<notin> set (balls s') \<and> mesh b \<notin> set (scene s') \<and> body b \<notin> set (bodies (world s'))"
    if t: "resting ext ?s1 b"
  proof -
    have out: "b \<notin> set (balls s')" using bs t by simp
    have no: "a \<notin> set (balls s')" if h: "mesh a = mesh b \<or> body a = body b" for a
    proof
      assume a': "a \<in> set (balls s')"
      then have "a \<in> set (balls s)" using bs by simp
      from same [OF this h] a' out show False by simp
    qed
    have "mesh b \<notin> set (scene s')" using sc g nb1 nb2 no by auto
    moreover have "body b \<notin> set (bodies (world s'))" using bo g nb3 no by auto
    ultimately show ?thesis using out by simp
  qed
  have stays: "b \<in> set (balls s') \<and> mesh b \<in> set (scene s') \<and> body b \<in> set (bodies (world s'))"
    if t: "\<not> resting ext ?s1 b"
  proof -
    have inb: "b \<in> set (balls s')" using bs t assms(2) by simp
    from inb paired_ball_handles(1,2) [OF p' inb] show ?thesis by simp
  qed
  have "if js_lt (vec3_length ext (body_velocity (rigid s' (body b)))) (Num 0.1) \<and>
        js_le (vy (body_position (rigid s' (body b)))) (Num 2)
     then b \<notin> set (balls s') \<and> mesh b \<notin> set (scene s') \<and> body b \<notin> set (bodies (world s'))
     else b \<in> set (balls s') \<and> mesh b \<in> set (scene s') \<and> body b \<in> set (bodies (world s'))"
    using gone stays test by (simp only: split: if_split) blast
  with a r show ?thesis by blast
qed

theorem settled_ball_removed_in_same_tick_witness:
  "\<exists>s'. animate sample_externals (Num 0) (addBall (addBall (GravityScene sample_container (Num 9.8)))) = Inr s' \<and>
     balls (addBall (addBall (GravityScene sample_container (Num 9.8)))) =
       [\<lparr>mesh = 3, body = 4, done_flag = False\<rparr>, \<lparr>mesh = 5, body = 6, done_flag = False\<rparr>] \<and>
     body_velocity (rigid s' 4) = Vec3 (Num 0) (Num 0) (Num 0) \<and>
     body_position (rigid s' 4) = Vec3 (Num 0) (Num 2) (Num 0) \<and>
     balls s' = [\<lparr>mesh = 5, body = 6, done_flag = False\<rparr>] \<and>
     scene s' = [0, 1, 5] \<and> bodies (world s') = [2, 6]"
proof -
  have r: "run sample_externals [Click, Click] (GravityScene sample_container (Num 9.8)) =
      Inr (addBall (addBall (GravityScene sample_container (Num 9.8))))"
    by simp
  have b: "\<lparr>mesh = 3, body = 4, done_flag = False\<rparr>
      \<in> set (balls (addBall (addBall (GravityScene sample_container (Num 9.8)))))"
    by (simp add: scene_eval)
  from settled_ball_removed_in_same_tick [OF r b, of "Num 0"] show ?thesis
    by (simp add: scene_eval)
qed

end
